theory Spec2Isabelle
  imports Complex_Main
begin

section \<open>Text normalisation and content hash (S03\_VECT.py, utilities)\<close>

text \<open>
  Python strings are modelled as \<open>string\<close>, one \<open>char\<close> per code point, so the model
  covers text whose code points are below 256. \<open>isspace\<close> lists the code points of that
  range for which Python's \<open>str.isspace\<close> holds; \<open>str.strip()\<close> and \<open>str.split()\<close>
  without arguments cut at exactly these.
\<close>

definition isspace :: "char \<Rightarrow> bool" where
  "isspace c = (c \<in> set [CHR 0x09, CHR 0x0A, CHR 0x0B, CHR 0x0C, CHR 0x0D,
                         CHR 0x1C, CHR 0x1D, CHR 0x1E, CHR 0x1F, CHR 0x20, CHR 0x85, CHR 0xA0])"

text \<open>\<open>s.strip()\<close>: leading and trailing whitespace removed.\<close>

definition strip :: "string \<Rightarrow> string" where
  "strip s = rev (dropWhile isspace (rev (dropWhile isspace s)))"

text \<open>\<open>s.split()\<close>: the maximal runs of non-whitespace characters, in order.\<close>

function split_ws :: "string \<Rightarrow> string list" where
  "split_ws [] = []"
| "split_ws (c # cs) =
     (if isspace c then split_ws cs
      else (c # takeWhile (\<lambda>x. \<not> isspace x) cs) # split_ws (dropWhile (\<lambda>x. \<not> isspace x) cs))"
  by pat_completeness auto
termination
  by (relation "measure length") (auto simp: less_Suc_eq_le length_dropWhile_le)

text \<open>\<open>" ".join(ws)\<close>.\<close>

fun join_sp :: "string list \<Rightarrow> string" where
  "join_sp [] = []"
| "join_sp [w] = w"
| "join_sp (w # v # ws) = w @ CHR 0x20 # join_sp (v # ws)"

text \<open>
  The slice \<open>s[:n]\<close>: the first \<open>n\<close> items, and for a negative \<open>n\<close> all but the last
  \<open>-n\<close> items.
\<close>

definition slice_to :: "int \<Rightarrow> 'a list \<Rightarrow> 'a list" where
  "slice_to n xs = (if 0 \<le> n then take (nat n) xs else take (length xs - nat (- n)) xs)"

text \<open>
  \<^verbatim>\<open>def _norm_text(s, max_chars=8000):
    if not s: return ""
    s = " ".join(s.strip().split())
    return s[:max_chars]\<close>
\<close>

definition norm_text :: "string \<Rightarrow> int \<Rightarrow> string" where
  "norm_text s max_chars =
     (if s = [] then [] else slice_to max_chars (join_sp (split_ws (strip s))))"

text \<open>
  \<^verbatim>\<open>def _hash_key(s):
    return hashlib.sha256(_norm_text(s).encode("utf-8")).hexdigest()\<close>
  The library's SHA-256 hex digest of the UTF-8 bytes is the parameter \<open>H\<close>.
\<close>

definition hash_key :: "(string \<Rightarrow> string) \<Rightarrow> string \<Rightarrow> string" where
  "hash_key H s = H (norm_text s 8000)"

subsection \<open>Words, and the shape of a normalised text\<close>

definition is_word :: "string \<Rightarrow> bool" where
  "is_word w = (w \<noteq> [] \<and> (\<forall>c \<in> set w. \<not> isspace c))"

definition wordlist :: "string list \<Rightarrow> bool" where
  "wordlist ws = (\<forall>w \<in> set ws. is_word w)"

lemma isspace_sp [simp]: "isspace (CHR 0x20)"
  by (simp add: isspace_def)

lemma wordlist_simps [simp]:
  "wordlist []" "wordlist (w # ws) = (is_word w \<and> wordlist ws)"
  by (auto simp: wordlist_def)

lemma split_ws_word_sp:
  assumes "is_word w"
  shows "split_ws (w @ CHR 0x20 # rest) = w # split_ws rest"
proof -
  from assms obtain c w' where w: "w = c # w'" and c: "\<not> isspace c"
    and w': "\<forall>x \<in> set w'. \<not> isspace x"
    by (cases w) (auto simp: is_word_def)
  have t: "takeWhile (\<lambda>x. \<not> isspace x) (w' @ CHR 0x20 # rest) = w'"
    using w' by (simp add: takeWhile_tail)
  have d: "dropWhile (\<lambda>x. \<not> isspace x) (w' @ CHR 0x20 # rest) = CHR 0x20 # rest"
    using w' by (simp add: dropWhile_append3)
  show ?thesis using c by (simp add: w t d)
qed

lemma split_ws_word:
  assumes "is_word w"
  shows "split_ws w = [w]"
proof -
  from assms obtain c w' where w: "w = c # w'" and c: "\<not> isspace c"
    and w': "\<forall>x \<in> set w'. \<not> isspace x"
    by (cases w) (auto simp: is_word_def)
  have t: "takeWhile (\<lambda>x. \<not> isspace x) w' = w'" using w' by simp
  have d: "dropWhile (\<lambda>x. \<not> isspace x) w' = []" using w' by simp
  show ?thesis using c by (simp add: w t d)
qed

lemma split_join: "wordlist ws \<Longrightarrow> split_ws (join_sp ws) = ws"
  by (induction ws rule: join_sp.induct) (simp_all add: split_ws_word split_ws_word_sp)

lemma wordlist_split: "wordlist (split_ws s)"
proof (induction s rule: split_ws.induct)
  case 1
  show ?case by simp
next
  case (2 c cs)
  then show ?case
    by (auto simp: is_word_def dest: set_takeWhileD)
qed

lemma join_sp_Nil_iff: "wordlist ws \<Longrightarrow> join_sp ws = [] \<longleftrightarrow> ws = []"
  by (induction ws rule: join_sp.induct) (auto simp: is_word_def)

lemma hd_join_sp: "wordlist ws \<Longrightarrow> ws \<noteq> [] \<Longrightarrow> \<not> isspace (hd (join_sp ws))"
  by (induction ws rule: join_sp.induct) (auto simp: is_word_def hd_append)

lemma last_join_sp: "wordlist ws \<Longrightarrow> ws \<noteq> [] \<Longrightarrow> \<not> isspace (last (join_sp ws))"
proof (induction ws rule: join_sp.induct)
  case (3 w v ws)
  then have "join_sp (v # ws) \<noteq> []" by (simp add: join_sp_Nil_iff)
  with 3 show ?case by simp
qed (auto simp: is_word_def)

lemma strip_id:
  assumes "s = [] \<or> (\<not> isspace (hd s) \<and> \<not> isspace (last s))"
  shows "strip s = s"
proof -
  have 1: "dropWhile isspace s = s"
    using assms by (auto simp: dropWhile_eq_self_iff)
  have 2: "dropWhile isspace (rev s) = rev s"
    using assms by (auto simp: dropWhile_eq_self_iff hd_rev)
  show ?thesis by (simp add: strip_def 1 2)
qed

lemma strip_join: "wordlist ws \<Longrightarrow> strip (join_sp ws) = join_sp ws"
  by (cases "ws = []") (auto intro!: strip_id simp: hd_join_sp last_join_sp)

lemma strip_snoc_space:
  assumes "isspace c"
  shows "strip (x @ [c]) = strip x"
proof (cases "\<forall>y \<in> set x. isspace y")
  case True
  then have d: "dropWhile isspace x = []" by simp
  show ?thesis using assms True by (simp add: strip_def d)
next
  case False
  with assms show ?thesis by (auto simp: strip_def dropWhile_append)
qed

lemma take_word: "is_word w \<Longrightarrow> 0 < n \<Longrightarrow> is_word (take n w)"
  by (cases w; cases n) (auto simp: is_word_def dest: in_set_takeD)

text \<open>
  A prefix of a joined word list is again a joined word list, possibly followed by the
  separator that the cut left at its end.
\<close>

lemma take_join_cases:
  "wordlist ws \<Longrightarrow>
   \<exists>ws'. wordlist ws' \<and> (take n (join_sp ws) = join_sp ws' \<or>
                          (ws' \<noteq> [] \<and> take n (join_sp ws) = join_sp ws' @ [CHR 0x20]))"
proof (induction ws arbitrary: n rule: join_sp.induct)
  case 1
  show ?case by (rule exI[of _ "[]"]) simp
next
  case (2 w)
  show ?case
  proof (cases "n = 0")
    case True
    then show ?thesis by (intro exI[of _ "[]"]) simp
  next
    case False
    with 2 have "is_word (take n w)" by (simp add: take_word)
    then show ?thesis by (intro exI[of _ "[take n w]"]) simp
  qed
next
  case (3 w v ws)
  then have w: "is_word w" and vws: "wordlist (v # ws)" by simp_all
  consider "n = 0" | "0 < n" "n \<le> length w" | "n = Suc (length w)" | "Suc (length w) < n"
    by linarith
  then show ?case
  proof cases
    case 1
    then show ?thesis by (intro exI[of _ "[]"]) simp
  next
    case 2
    with w have "is_word (take n w)" by (simp add: take_word)
    with 2 show ?thesis by (intro exI[of _ "[take n w]"]) simp
  next
    case 3
    with w show ?thesis by (intro exI[of _ "[w]"]) simp
  next
    case 4
    define m where "m = n - Suc (length w)"
    have m: "0 < m" and n: "n = Suc (length w) + m" using 4 by (simp_all add: m_def)
    have tk: "take n (join_sp (w # v # ws)) = w @ CHR 0x20 # take m (join_sp (v # ws))"
      by (simp add: n)
    from "3.IH"[OF vws, of m] obtain ws' where ws': "wordlist ws'"
      and alt: "take m (join_sp (v # ws)) = join_sp ws' \<or>
                (ws' \<noteq> [] \<and> take m (join_sp (v # ws)) = join_sp ws' @ [CHR 0x20])"
      by blast
    have ne: "take m (join_sp (v # ws)) \<noteq> []"
      using m vws join_sp_Nil_iff[OF vws] by simp
    have ws'ne: "ws' \<noteq> []" using alt ne by auto
    then obtain a as where as: "ws' = a # as" by (cases ws') auto
    from alt show ?thesis
    proof
      assume "take m (join_sp (v # ws)) = join_sp ws'"
      with tk have "take n (join_sp (w # v # ws)) = w @ CHR 0x20 # join_sp ws'"
        by (simp only:)
      then have "take n (join_sp (w # v # ws)) = join_sp (w # ws')"
        by (simp add: as)
      with w ws' show ?thesis by (intro exI[of _ "w # ws'"]) simp
    next
      assume "ws' \<noteq> [] \<and> take m (join_sp (v # ws)) = join_sp ws' @ [CHR 0x20]"
      with tk have "take n (join_sp (w # v # ws)) = w @ CHR 0x20 # join_sp ws' @ [CHR 0x20]"
        by (simp only:)
      then have "take n (join_sp (w # v # ws)) = join_sp (w # ws') @ [CHR 0x20]"
        by (simp add: as)
      with w ws' show ?thesis by (intro exI[of _ "w # ws'"]) simp
    qed
  qed
qed

lemma renorm_joined:
  assumes "wordlist ws" "length (join_sp ws) \<le> m"
  shows "norm_text (join_sp ws) (int m) = join_sp ws"
  using assms by (simp add: norm_text_def strip_join split_join slice_to_def)

lemma renorm_joined_space:
  assumes "wordlist ws" "length (join_sp ws) \<le> m"
  shows "norm_text (join_sp ws @ [CHR 0x20]) (int m) = join_sp ws"
  using assms by (simp add: norm_text_def strip_snoc_space strip_join split_join slice_to_def)

lemma norm_text_shape:
  "\<exists>ws. wordlist ws \<and> length (join_sp ws) \<le> m \<and>
     (norm_text s (int m) = join_sp ws \<or>
      (ws \<noteq> [] \<and> norm_text s (int m) = join_sp ws @ [CHR 0x20]))"
proof (cases "s = []")
  case True
  then show ?thesis by (intro exI[of _ "[]"]) (simp add: norm_text_def)
next
  case False
  have n: "norm_text s (int m) = take m (join_sp (split_ws (strip s)))"
    using False by (simp add: norm_text_def slice_to_def)
  from take_join_cases[OF wordlist_split, of m "strip s"] obtain ws where ws: "wordlist ws"
    and alt: "take m (join_sp (split_ws (strip s))) = join_sp ws \<or>
              (ws \<noteq> [] \<and> take m (join_sp (split_ws (strip s))) = join_sp ws @ [CHR 0x20])"
    by blast
  have len: "length (take m (join_sp (split_ws (strip s)))) \<le> m" by simp
  from alt have "length (join_sp ws) \<le> m"
  proof
    assume e: "take m (join_sp (split_ws (strip s))) = join_sp ws"
    show ?thesis using len unfolding e .
  next
    assume e: "ws \<noteq> [] \<and> take m (join_sp (split_ws (strip s))) = join_sp ws @ [CHR 0x20]"
    then have "length (join_sp ws @ [CHR 0x20]) \<le> m" using len by simp
    then show ?thesis by simp
  qed
  with ws alt n show ?thesis by (intro exI[of _ ws]) simp
qed

text \<open>Normalising a second time removes the separator a cut may have left, and nothing else.\<close>

lemma norm_text_twice:
  "norm_text (norm_text s (int m)) (int m) =
     (if norm_text s (int m) \<noteq> [] \<and> last (norm_text s (int m)) = CHR 0x20
      then butlast (norm_text s (int m)) else norm_text s (int m))"
proof -
  from norm_text_shape[of m s] obtain ws where ws: "wordlist ws"
    and len: "length (join_sp ws) \<le> m"
    and alt: "norm_text s (int m) = join_sp ws \<or>
      (ws \<noteq> [] \<and> norm_text s (int m) = join_sp ws @ [CHR 0x20])" by blast
  from alt show ?thesis
  proof
    assume e: "norm_text s (int m) = join_sp ws"
    have "join_sp ws \<noteq> [] \<Longrightarrow> last (join_sp ws) \<noteq> CHR 0x20"
      using last_join_sp[OF ws] join_sp_Nil_iff[OF ws] isspace_sp by metis
    then show ?thesis using renorm_joined[OF ws len] by (auto simp: e)
  next
    assume e: "ws \<noteq> [] \<and> norm_text s (int m) = join_sp ws @ [CHR 0x20]"
    then show ?thesis using renorm_joined_space[OF ws len] by simp
  qed
qed

lemma norm_text_untruncated:
  assumes "length (join_sp (split_ws (strip s))) \<le> m"
  shows "norm_text s (int m) = [] \<or> last (norm_text s (int m)) \<noteq> CHR 0x20"
proof (cases "s = []")
  case True then show ?thesis by (simp add: norm_text_def)
next
  case False
  have n: "norm_text s (int m) = join_sp (split_ws (strip s))"
    using False assms by (simp add: norm_text_def slice_to_def)
  show ?thesis
    using last_join_sp[OF wordlist_split, of "strip s"]
      join_sp_Nil_iff[OF wordlist_split, of "strip s"] isspace_sp
    unfolding n by metis
qed

lemma norm_text_cut_at_separator:
  "norm_text (replicate 7999 (CHR ''a'') @ '' b'') 8000 = replicate 7999 (CHR ''a'') @ '' ''"
proof -
  have w: "wordlist [replicate 7999 (CHR ''a''), ''b'']"
    by (simp add: is_word_def isspace_def)
  have j: "replicate 7999 (CHR ''a'') @ '' b'' = join_sp [replicate 7999 (CHR ''a''), ''b'']"
    by simp
  have "norm_text (join_sp [replicate 7999 (CHR ''a''), ''b'']) 8000
      = slice_to 8000 (join_sp [replicate 7999 (CHR ''a''), ''b''])"
    unfolding norm_text_def strip_join[OF w] split_join[OF w] by simp
  also have "\<dots> = replicate 7999 (CHR ''a'') @ '' ''"
    by (simp add: slice_to_def)
  finally show ?thesis unfolding j .
qed

subsection \<open>C10: idempotence of the normalisation\<close>

text \<open>
  Claim C10, as the code has it. With the default cap of 8000 characters,
  \<open>_norm_text (_norm_text s) = _norm_text s\<close> holds exactly when the once-normalised text
  does not end in a space. That is the case for every input whose whitespace-collapsed
  form has at most 8000 characters (nothing is cut), and for those inputs the key that
  \<open>generate_embedding\<close> computes with \<open>_hash_key\<close> from the already normalised text is the
  hash of the once-normalised text. When the cut at 8000 characters falls right behind a
  separator, the once-normalised text ends in that space and the second normalisation
  removes it, so the key is the hash of the text without it.
\<close>

theorem norm_text_idempotent_iff_no_trailing_space:
  "(norm_text (norm_text s 8000) 8000 = norm_text s 8000
      \<longleftrightarrow> (norm_text s 8000 = [] \<or> last (norm_text s 8000) \<noteq> CHR 0x20))
   \<and> (length (join_sp (split_ws (strip s))) \<le> 8000
      \<longrightarrow> norm_text (norm_text s 8000) 8000 = norm_text s 8000
          \<and> hash_key H (norm_text s 8000) = H (norm_text s 8000))
   \<and> (norm_text s 8000 \<noteq> [] \<and> last (norm_text s 8000) = CHR 0x20
      \<longrightarrow> hash_key H (norm_text s 8000) = H (butlast (norm_text s 8000)))"
proof -
  have tw: "norm_text (norm_text s 8000) 8000 =
     (if norm_text s 8000 \<noteq> [] \<and> last (norm_text s 8000) = CHR 0x20
      then butlast (norm_text s 8000) else norm_text s 8000)"
    using norm_text_twice[of s 8000] by simp
  have bl: "norm_text s 8000 \<noteq> [] \<Longrightarrow> butlast (norm_text s 8000) \<noteq> norm_text s 8000"
    by (metis append_butlast_last_id append_self_conv not_Cons_self)
  have a: "norm_text (norm_text s 8000) 8000 = norm_text s 8000
      \<longleftrightarrow> (norm_text s 8000 = [] \<or> last (norm_text s 8000) \<noteq> CHR 0x20)"
    using bl by (auto simp: tw)
  have b: "length (join_sp (split_ws (strip s))) \<le> 8000
      \<longrightarrow> norm_text (norm_text s 8000) 8000 = norm_text s 8000
          \<and> hash_key H (norm_text s 8000) = H (norm_text s 8000)"
  proof
    assume "length (join_sp (split_ws (strip s))) \<le> 8000"
    from norm_text_untruncated[OF this]
    have "norm_text s 8000 = [] \<or> last (norm_text s 8000) \<noteq> CHR 0x20" by simp
    with a have "norm_text (norm_text s 8000) 8000 = norm_text s 8000" by simp
    then show "norm_text (norm_text s 8000) 8000 = norm_text s 8000
          \<and> hash_key H (norm_text s 8000) = H (norm_text s 8000)"
      by (simp add: hash_key_def)
  qed
  have c: "norm_text s 8000 \<noteq> [] \<and> last (norm_text s 8000) = CHR 0x20
      \<longrightarrow> hash_key H (norm_text s 8000) = H (butlast (norm_text s 8000))"
    by (simp add: hash_key_def tw)
  from a b c show ?thesis by blast
qed

theorem norm_text_idempotent_witness:
  "norm_text (norm_text ''  ab   cd '' 8000) 8000 = ''ab cd''
   \<and> norm_text ''  ab   cd '' 8000 = ''ab cd''
   \<and> hash_key rev (norm_text ''  ab   cd '' 8000) = ''dc ba''"
proof -
  have n: "norm_text ''  ab   cd '' 8000 = ''ab cd''"
    by (simp add: norm_text_def strip_def isspace_def slice_to_def)
  have l: "length (join_sp (split_ws (strip ''  ab   cd ''))) \<le> 8000"
    by (simp add: strip_def isspace_def)
  from norm_text_idempotent_iff_no_trailing_space[of "''  ab   cd ''" rev] l
  have "norm_text (norm_text ''  ab   cd '' 8000) 8000 = norm_text ''  ab   cd '' 8000
        \<and> hash_key rev (norm_text ''  ab   cd '' 8000) = rev (norm_text ''  ab   cd '' 8000)"
    by blast
  then show ?thesis by (simp add: n)
qed

text \<open>
  The claim as stated fails where the cut falls behind a separator: 7999 letters, a
  space and one more letter collapse to 8001 characters, the cut keeps the space, and
  the second normalisation strips it.
\<close>

theorem norm_text_not_idempotent:
  "norm_text (norm_text (replicate 7999 (CHR ''a'') @ '' b'') 8000) 8000
     \<noteq> norm_text (replicate 7999 (CHR ''a'') @ '' b'') 8000"
proof -
  let ?n = "norm_text (replicate 7999 (CHR ''a'') @ '' b'') 8000"
  have n: "?n = replicate 7999 (CHR ''a'') @ '' ''"
    by (rule norm_text_cut_at_separator)
  have "norm_text ?n 8000 = butlast ?n"
    using norm_text_twice[of "replicate 7999 (CHR ''a'') @ '' b''" 8000] by (simp add: n)
  also have "\<dots> = replicate 7999 (CHR ''a'')"
    by (simp add: n butlast_append)
  finally have l1: "length (norm_text ?n 8000) = 7999" by simp
  have l2: "length ?n = 8000" by (simp add: n)
  show ?thesis
  proof
    assume "norm_text ?n 8000 = ?n"
    then have "length (norm_text ?n 8000) = length ?n" by (simp only:)
    with l1 l2 show False by simp
  qed
qed

section \<open>Engine state and its environment\<close>

text \<open>
  \<open>VectorizerEngine\<close> of \<^verbatim>\<open>S03_VECT.py\<close> keeps its state in the fields of the object, in
  two SQLite files (\<^verbatim>\<open>PROC.db\<close> with the table \<open>chat_data\<close>; \<^verbatim>\<open>MVM.db\<close> with the tables
  \<open>vectors\<close>, \<open>embed_cache\<close> and \<open>embed_dlq\<close>) and in a Qdrant collection; it posts prompts
  to an inference endpoint, draws random jitter and reads the clock. The record \<open>sys\<close>
  holds all of it:

  \<^item> \<open>target\<close> to \<open>rp\<close> are the fields of the object, \<open>rp\<close> being
    \<^verbatim>\<open>self.config["retry_policy"]\<close> and \<open>stats\<close> the \<^verbatim>\<open>defaultdict(int)\<close>;
  \<^item> \<open>clock\<close> is \<^verbatim>\<open>time.time()\<close>; only a sleep advances it, and \<open>slept\<close> lists the
    arguments of \<^verbatim>\<open>asyncio.sleep\<close> in the order of the calls;
  \<^item> \<open>embed_cache\<close>, \<open>embed_dlq\<close>, \<open>vectors_tbl\<close> and \<open>chat_data\<close> are the tables, their rows
    in insertion order, and \<open>qdrant_points\<close> is the collection;
  \<^item> \<open>env\<close> is what the engine does not control: \<open>faults n\<close> tells whether the \<open>n\<close>-th
    storage operation (one \<^verbatim>\<open>sqlite3.connect\<close> ... \<^verbatim>\<open>close\<close> block, or one Qdrant upsert)
    raises, \<open>ollama n p\<close> is the answer to the \<open>n\<close>-th POST when its prompt is \<open>p\<close>, and
    \<open>rand n\<close> is the \<open>n\<close>-th draw of \<^verbatim>\<open>random.random()\<close>, in the unit interval; \<open>ops\<close>,
    \<open>posts\<close> and \<open>draws\<close> count the operations, calls and draws made so far;
    \<open>collection_size\<close> is the vector size of the Qdrant collection, fixed when the
    collection was created (\<^verbatim>\<open>VectorParams(size=self.embedding_dim, ...)\<close> in
    \<^verbatim>\<open>_init_qdrant\<close>, the length of the warm-up embedding);
  \<^item> \<open>events\<close> is the log, the level and the event name of each \<^verbatim>\<open>log_event\<close> call
    (the level is \<open>INFO\<close> when the call gives none).

  Floats are rationals here. A vector written with \<^verbatim>\<open>json.dumps\<close> is read back unchanged by
  \<^verbatim>\<open>json.loads\<close>. \<^verbatim>\<open>datetime('now')\<close> and \<^verbatim>\<open>_iso_utc()\<close> are the clock in whole seconds.
  A function of the source that can raise returns an \<open>outcome\<close>; one whose loop may run
  for ever returns an \<open>option\<close>, \<open>None\<close> standing for a call that does not return.
\<close>

type_synonym vector = "rat list"

datatype 'a outcome = Returned 'a | Raised string

datatype target = Mvm | Qdrant | Both

text \<open>
  The body of a response, as far as the client looks at it: \<^verbatim>\<open>data.get("embedding")\<close> is
  absent, something that is not a list, or a list of values, of which \<^verbatim>\<open>float(x)\<close> accepts
  the numbers.
\<close>

datatype json_value = JNumber rat | JOther

datatype embedding_field = Absent | NotAList | EmbList "json_value list"

datatype response = HttpError string | Payload embedding_field

record retry_policy =
  rp_attempts :: int
  rp_base_ms :: rat
  rp_max_ms :: rat

record config =
  expected_embed_model :: string
  min_interval_ms :: rat
  retry :: retry_policy
  failure_threshold :: int
  pause_duration_s :: rat

definition CONFIG_DEFAULTS :: config where
  "CONFIG_DEFAULTS =
     \<lparr>expected_embed_model = ''nomic-embed-text'',
      min_interval_ms = 2000,
      retry = \<lparr>rp_attempts = 3, rp_base_ms = 1000, rp_max_ms = 5000\<rparr>,
      failure_threshold = 10,
      pause_duration_s = 30\<rparr>"

record cache_row =
  cache_key :: string
  cache_vector :: vector
  cache_model :: string
  cache_dims :: int
  created_at :: int

record dlq_row =
  dlq_key :: string
  dlq_text :: string
  last_error :: string
  attempts :: int
  last_attempt_at :: int

record chat_row =
  rowid :: int
  bubble_id :: string
  composer_id :: string
  created_at_utc :: string
  chat_text :: "string option"
  bubble_type_name :: string
  processed :: bool

record vec_item =
  v_rowid :: int
  v_bubble_id :: string
  v_composer_id :: string
  v_timestamp :: string
  v_text :: string
  v_bubble_type :: string
  v_vector :: vector

record vector_row =
  state_row_id :: int
  vr_bubble_id :: string
  vr_composer_id :: string
  CHAT_TIMESTAMP_UTC :: string
  message_text :: string
  vr_bubble_type_name :: string
  vr_vector :: vector
  vector_model :: string
  vector_dimensions :: int
  vectorized_at :: int

record point_payload =
  p_bubble_id :: string
  p_composer_id :: string
  p_timestamp :: string
  text_preview :: string
  p_bubble_type :: string
  p_vector_model :: string
  p_vector_dimensions :: int
  p_vectorized_at :: int

record point =
  point_id :: string
  point_vector :: vector
  payload :: point_payload

record world =
  faults :: "nat \<Rightarrow> bool"
  ollama :: "nat \<Rightarrow> string \<Rightarrow> response"
  rand :: "nat \<Rightarrow> rat"
  collection_size :: nat

record sys =
  target :: target
  model :: string
  tokens :: rat
  token_last :: rat
  tokens_per_sec :: rat
  bucket_size :: rat
  cb_failures :: int
  cb_threshold :: int
  cb_pause_s :: rat
  stats :: "string \<Rightarrow> int"
  cache_initialized :: bool
  rp :: retry_policy
  clock :: rat
  slept :: "rat list"
  embed_cache :: "cache_row list"
  embed_dlq :: "dlq_row list"
  vectors_tbl :: "vector_row list"
  qdrant_points :: "point list"
  chat_data :: "chat_row list"
  env :: world
  ops :: nat
  posts :: nat
  draws :: nat
  events :: "(string \<times> string) list"

text \<open>
  The constructor \<open>VectorizerEngine.__init__\<close>: a full bucket of two tokens, a closed
  breaker, zeroed statistics. It divides by \<open>min_interval_ms\<close>, which raises when that
  is zero. The stores, the clock and the oracles of the environment are part of the
  state record; \<open>new_engine\<close> starts with empty cache, dead letter and sink tables.
\<close>

definition new_engine :: "config \<Rightarrow> target \<Rightarrow> world \<Rightarrow> rat \<Rightarrow> chat_row list \<Rightarrow> sys" where
  "new_engine cfg tgt w now rows =
     \<lparr>target = tgt, model = expected_embed_model cfg,
      tokens = 2, token_last = now, tokens_per_sec = 1000 / min_interval_ms cfg,
      bucket_size = 2,
      cb_failures = 0, cb_threshold = failure_threshold cfg,
      cb_pause_s = pause_duration_s cfg,
      stats = (\<lambda>_. 0), cache_initialized = False, rp = retry cfg,
      clock = now, slept = [], embed_cache = [], embed_dlq = [], vectors_tbl = [],
      qdrant_points = [], chat_data = rows, env = w, ops = 0, posts = 0, draws = 0,
      events = []\<rparr>"

definition init_engine :: "config \<Rightarrow> target \<Rightarrow> world \<Rightarrow> rat \<Rightarrow> chat_row list \<Rightarrow> sys outcome" where
  "init_engine cfg tgt w now rows =
     (if min_interval_ms cfg = 0 then Raised ''ZeroDivisionError''
      else Returned (new_engine cfg tgt w now rows))"

text \<open>
  The effects every function below is built from: appending to the log, sleeping, adding
  to a statistic, reading the clock in seconds, and the outcome of the next storage
  operation (\<open>io_fault\<close>) with the step that counts it (\<open>io_tick\<close>).
\<close>

definition log_event :: "string \<Rightarrow> string \<Rightarrow> sys \<Rightarrow> sys" where
  "log_event level event \<sigma> = \<sigma>\<lparr>events := events \<sigma> @ [(level, event)]\<rparr>"

definition sleep_for :: "rat \<Rightarrow> sys \<Rightarrow> sys" where
  "sleep_for d \<sigma> = \<sigma>\<lparr>clock := clock \<sigma> + max d 0, slept := slept \<sigma> @ [d]\<rparr>"

definition stat_add :: "string \<Rightarrow> int \<Rightarrow> sys \<Rightarrow> sys" where
  "stat_add name n \<sigma> = \<sigma>\<lparr>stats := (stats \<sigma>)(name := stats \<sigma> name + n)\<rparr>"

definition now_utc :: "sys \<Rightarrow> int" where
  "now_utc \<sigma> = \<lfloor>clock \<sigma>\<rfloor>"

definition io_fault :: "sys \<Rightarrow> bool" where
  "io_fault \<sigma> = faults (env \<sigma>) (ops \<sigma>)"

definition io_tick :: "sys \<Rightarrow> sys" where
  "io_tick \<sigma> = \<sigma>\<lparr>ops := Suc (ops \<sigma>)\<rparr>"

text \<open>
  \<^verbatim>\<open>_ensure_cache_tables\<close>: nothing when the flag is set; else one storage operation that
  creates the three tables of \<^verbatim>\<open>MVM.db\<close> and then sets the flag. The source has no \<^verbatim>\<open>try\<close>
  around it, so a failure of the operation is raised to the caller with the flag unset.
\<close>

definition ensure_cache_tables :: "sys \<Rightarrow> unit outcome \<times> sys" where
  "ensure_cache_tables \<sigma> =
     (if cache_initialized \<sigma> then (Returned (), \<sigma>)
      else if io_fault \<sigma> then (Raised ''sqlite3.Error'', io_tick \<sigma>)
      else (Returned (), (io_tick \<sigma>)\<lparr>cache_initialized := True\<rparr>))"

text \<open>
  \<^verbatim>\<open>_take_token\<close>: refill by the time elapsed, capped at the bucket size; with a whole
  token, take it and return \<open>True\<close>; else sleep \<^verbatim>\<open>min(needed / tokens_per_sec, 0.5)\<close> and
  return \<open>False\<close>. The division raises when the rate is zero.
\<close>

definition take_token :: "sys \<Rightarrow> bool outcome \<times> sys" where
  "take_token \<sigma> =
     (let now = clock \<sigma>;
          t = min (bucket_size \<sigma>) (tokens \<sigma> + (now - token_last \<sigma>) * tokens_per_sec \<sigma>);
          \<sigma>1 = \<sigma>\<lparr>tokens := t, token_last := now\<rparr>
      in if 1 \<le> t then (Returned True, \<sigma>1\<lparr>tokens := t - 1\<rparr>)
         else if tokens_per_sec \<sigma> = 0 then (Raised ''ZeroDivisionError'', \<sigma>1)
         else (let needed = 1 - t; wait_time = needed / tokens_per_sec \<sigma>
               in (Returned False, sleep_for (min wait_time (1 / 2)) \<sigma>1)))"

text \<open>\<^verbatim>\<open>while not await self._take_token(): pass\<close>, the loop of \<open>generate_embedding\<close>.\<close>

partial_function (option) acquire :: "sys \<Rightarrow> (unit outcome \<times> sys) option" where
  "acquire \<sigma> =
     (case take_token \<sigma> of
        (Raised e, \<sigma>1) \<Rightarrow> Some (Raised e, \<sigma>1)
      | (Returned ok, \<sigma>1) \<Rightarrow> if ok then Some (Returned (), \<sigma>1) else acquire \<sigma>1)"

text \<open>
  \<^verbatim>\<open>_cool_if_cb_open\<close>: at or above the threshold, log \<open>circuit_open\<close>, sleep
  \<^verbatim>\<open>cb_pause_s * min(circuit_trips + 1, 5)\<close>, then reset the failure counter and count the
  trip.
\<close>

definition cool_if_cb_open :: "sys \<Rightarrow> sys" where
  "cool_if_cb_open \<sigma> =
     (if cb_threshold \<sigma> \<le> cb_failures \<sigma> then
        (let pause_multiplier = min (stats \<sigma> ''circuit_trips'' + 1) 5;
             pause_time = cb_pause_s \<sigma> * of_int pause_multiplier;
             \<sigma>1 = sleep_for pause_time (log_event ''ERROR'' ''circuit_open'' \<sigma>)
         in stat_add ''circuit_trips'' 1 (\<sigma>1\<lparr>cb_failures := 0\<rparr>))
      else \<sigma>)"


subsection \<open>Embedding cache and dead letter table\<close>

text \<open>
  The three statements that \<open>generate_embedding\<close> runs on \<open>embed_cache\<close> and \<open>embed_dlq\<close>,
  both with \<open>key\<close> as primary key:
  \<^verbatim>\<open>SELECT vector, dims FROM embed_cache WHERE key=?\<close> is \<open>cache_lookup\<close>,
  \<^verbatim>\<open>INSERT OR IGNORE INTO embed_cache\<close> is \<open>cache_insert\<close>, and
  \<^verbatim>\<open>INSERT INTO embed_dlq ... VALUES(?,?,?,1,datetime('now')) ON CONFLICT(key) DO UPDATE SET\<close>
  \<^verbatim>\<open>last_error=excluded.last_error, attempts=embed_dlq.attempts+1, last_attempt_at=datetime('now')\<close>
  is \<open>dlq_upsert\<close>. \<open>cache_write\<close> and \<open>dlq_write\<close> are the \<^verbatim>\<open>try\<close> blocks around the two
  writes: a failure is logged and goes no further.
\<close>

definition cache_lookup :: "string \<Rightarrow> cache_row list \<Rightarrow> cache_row option" where
  "cache_lookup k rows = find (\<lambda>r. cache_key r = k) rows"

definition cache_insert :: "cache_row \<Rightarrow> cache_row list \<Rightarrow> cache_row list" where
  "cache_insert r rows =
     (case cache_lookup (cache_key r) rows of None \<Rightarrow> rows @ [r] | Some _ \<Rightarrow> rows)"

fun dlq_upsert :: "string \<Rightarrow> string \<Rightarrow> string \<Rightarrow> int \<Rightarrow> dlq_row list \<Rightarrow> dlq_row list" where
  "dlq_upsert k t e now [] =
     [\<lparr>dlq_key = k, dlq_text = t, last_error = e, attempts = 1, last_attempt_at = now\<rparr>]"
| "dlq_upsert k t e now (r # rs) =
     (if dlq_key r = k
      then r\<lparr>last_error := e, attempts := attempts r + 1, last_attempt_at := now\<rparr> # rs
      else r # dlq_upsert k t e now rs)"

definition cache_write :: "string \<Rightarrow> vector \<Rightarrow> sys \<Rightarrow> sys" where
  "cache_write k vec \<sigma> =
     (if io_fault \<sigma> then log_event ''WARN'' ''cache_write_failed'' (io_tick \<sigma>)
      else (io_tick \<sigma>)\<lparr>embed_cache :=
             cache_insert \<lparr>cache_key = k, cache_vector = vec, cache_model = model \<sigma>,
                           cache_dims = int (length vec), created_at = now_utc \<sigma>\<rparr>
                          (embed_cache \<sigma>)\<rparr>)"

definition dlq_write :: "string \<Rightarrow> string \<Rightarrow> string \<Rightarrow> sys \<Rightarrow> sys" where
  "dlq_write k t e \<sigma> =
     (if io_fault \<sigma> then log_event ''ERROR'' ''dlq_write_failed'' (io_tick \<sigma>)
      else (io_tick \<sigma>)\<lparr>embed_dlq := dlq_upsert k t e (now_utc \<sigma>) (embed_dlq \<sigma>)\<rparr>)"

subsection \<open>The embedding client\<close>

fun to_float :: "json_value \<Rightarrow> rat option" where
  "to_float (JNumber x) = Some x"
| "to_float JOther = None"

fun floats :: "json_value list \<Rightarrow> vector option" where
  "floats [] = Some []"
| "floats (x # xs) =
     (case to_float x of None \<Rightarrow> None
      | Some v \<Rightarrow> (case floats xs of None \<Rightarrow> None | Some vs \<Rightarrow> Some (v # vs)))"

text \<open>
  What the \<open>try\<close> block of the retry loop makes of a response: a transport or status
  error, a missing, non-list or empty \<open>embedding\<close> field (\<open>invalid_embedding_payload\<close>) and
  an element that \<open>float\<close> rejects all raise; anything else is the vector.
\<close>

fun parse_response :: "response \<Rightarrow> string + vector" where
  "parse_response (HttpError e) = Inl e"
| "parse_response (Payload Absent) = Inl ''invalid_embedding_payload''"
| "parse_response (Payload NotAList) = Inl ''invalid_embedding_payload''"
| "parse_response (Payload (EmbList xs)) =
     (if xs = [] then Inl ''invalid_embedding_payload''
      else (case floats xs of
              None \<Rightarrow> Inl ''could not convert to float''
            | Some vec \<Rightarrow> Inr vec))"

text \<open>One POST to the endpoint, parsed.\<close>

definition post_embedding :: "string \<Rightarrow> sys \<Rightarrow> (string + vector) \<times> sys" where
  "post_embedding prompt \<sigma> =
     (parse_response (ollama (env \<sigma>) (posts \<sigma>) prompt), \<sigma>\<lparr>posts := Suc (posts \<sigma>)\<rparr>)"

text \<open>
  \<^verbatim>\<open>for attempt in range(rp["attempts"])\<close>, over the list of attempt numbers still to run,
  with the content hash \<open>k\<close> and the normalized text \<open>prompt\<close>. A valid response writes the
  cache, resets the failure counter, counts the success and returns the vector. A failure
  counts an error and a consecutive failure; before the last attempt it sleeps
  \<^verbatim>\<open>(delay_ms + jitter) / 1000\<close> with \<^verbatim>\<open>jitter = random.uniform(0, delay_ms * 0.1)\<close> and goes
  on, at the last attempt it writes the dead letter entry and returns \<open>None\<close>. A loop that
  runs out of attempts returns \<open>None\<close> as well.
\<close>

fun retry_loop :: "string \<Rightarrow> string \<Rightarrow> nat list \<Rightarrow> sys \<Rightarrow> vector option \<times> sys" where
  "retry_loop k prompt [] \<sigma> = (None, \<sigma>)"
| "retry_loop k prompt (attempt # rest) \<sigma> =
     (case post_embedding prompt \<sigma> of
        (Inr vec, \<sigma>1) \<Rightarrow>
          (Some vec, stat_add ''embeddings_generated'' 1 ((cache_write k vec \<sigma>1)\<lparr>cb_failures := 0\<rparr>))
      | (Inl e, \<sigma>1) \<Rightarrow>
          (let \<sigma>2 = (stat_add ''embedding_errors'' 1 \<sigma>1)\<lparr>cb_failures := cb_failures \<sigma>1 + 1\<rparr> in
           if int attempt < rp_attempts (rp \<sigma>2) - 1 then
             (let delay_ms = min (rp_base_ms (rp \<sigma>2) * 2 ^ attempt) (rp_max_ms (rp \<sigma>2));
                  jitter = delay_ms * (1 / 10) * rand (env \<sigma>2) (draws \<sigma>2);
                  \<sigma>3 = sleep_for ((delay_ms + jitter) / 1000) (\<sigma>2\<lparr>draws := Suc (draws \<sigma>2)\<rparr>)
              in retry_loop k prompt rest (log_event ''WARN'' ''embedding_retry'' \<sigma>3))
           else (None, log_event ''ERROR'' ''embedding_failed_final'' (dlq_write k prompt e \<sigma>2))))"

text \<open>
  \<open>generate_embedding\<close> behind the rate limiter: normalize; return \<open>[]\<close> for an empty text;
  look the content hash up in the cache and return a hit; on a miss, or when the read
  fails (which is logged), pass the breaker gate and run the retry loop. The function \<open>H\<close>
  stands for SHA-256 in hexadecimal.
\<close>

definition embed_body :: "(string \<Rightarrow> string) \<Rightarrow> string \<Rightarrow> sys \<Rightarrow> vector option \<times> sys" where
  "embed_body H text0 \<sigma> =
     (let txt = norm_text text0 8000 in
      if txt = [] then (Some [], stat_add ''empty_text'' 1 \<sigma>)
      else
        (let k = hash_key H txt in
         if io_fault \<sigma>
         then (let \<sigma>1 = cool_if_cb_open (log_event ''WARN'' ''cache_read_failed'' (io_tick \<sigma>))
               in retry_loop k txt [0..<nat (rp_attempts (rp \<sigma>1))] \<sigma>1)
         else (case cache_lookup k (embed_cache \<sigma>) of
                 Some row \<Rightarrow>
                   (Some (cache_vector row),
                    log_event ''INFO'' ''cache_hit'' (stat_add ''cache_hits'' 1 (io_tick \<sigma>)))
               | None \<Rightarrow>
                   (let \<sigma>1 = cool_if_cb_open (io_tick \<sigma>)
                    in retry_loop k txt [0..<nat (rp_attempts (rp \<sigma>1))] \<sigma>1))))"

text \<open>
  \<open>generate_embedding\<close>: table creation, then the rate limiter loop, then the body.
  \<open>Returned None\<close> is the permanent failure, \<open>Returned (Some [])\<close> the answer for an empty
  text.
\<close>

definition generate_embedding ::
  "(string \<Rightarrow> string) \<Rightarrow> string \<Rightarrow> sys \<Rightarrow> (vector option outcome \<times> sys) option" where
  "generate_embedding H text0 \<sigma> =
     (case ensure_cache_tables \<sigma> of
        (Raised e, \<sigma>1) \<Rightarrow> Some (Raised e, \<sigma>1)
      | (Returned _, \<sigma>1) \<Rightarrow>
          (case acquire \<sigma>1 of
             None \<Rightarrow> None
           | Some (Raised e, \<sigma>2) \<Rightarrow> Some (Raised e, \<sigma>2)
           | Some (Returned _, \<sigma>2) \<Rightarrow>
               (case embed_body H text0 \<sigma>2 of (r, \<sigma>3) \<Rightarrow> Some (Returned r, \<sigma>3))))"

subsection \<open>Dead letter draining\<close>

text \<open>
  \<open>drain_dlq\<close> reads
  \<^verbatim>\<open>SELECT key, text FROM embed_dlq WHERE attempts < 10 ORDER BY last_attempt_at ASC LIMIT ?\<close>
  (\<open>list_retryable\<close>; a negative \<^verbatim>\<open>LIMIT\<close> is no limit), embeds each text again and deletes
  the entries whose call did not return \<open>None\<close> (\<open>drain_rows\<close>). Everything sits in one
  \<^verbatim>\<open>try\<close>, whose handler logs \<open>dlq_drain_failed\<close>.
\<close>

definition limit_rows :: "int \<Rightarrow> 'a list \<Rightarrow> 'a list" where
  "limit_rows n rows = (if n < 0 then rows else take (nat n) rows)"

definition list_retryable :: "int \<Rightarrow> dlq_row list \<Rightarrow> (string \<times> string) list" where
  "list_retryable max_items rows =
     map (\<lambda>r. (dlq_key r, dlq_text r))
       (limit_rows max_items (sort_key last_attempt_at (filter (\<lambda>r. attempts r < 10) rows)))"

fun drain_rows :: "(string \<Rightarrow> string) \<Rightarrow> (string \<times> string) list \<Rightarrow> sys \<Rightarrow> (unit outcome \<times> sys) option" where
  "drain_rows H [] \<sigma> = Some (Returned (), \<sigma>)"
| "drain_rows H ((k, t) # rest) \<sigma> =
     (case generate_embedding H t \<sigma> of
        None \<Rightarrow> None
      | Some (Raised e, \<sigma>1) \<Rightarrow> Some (Raised e, \<sigma>1)
      | Some (Returned None, \<sigma>1) \<Rightarrow> drain_rows H rest \<sigma>1
      | Some (Returned (Some v), \<sigma>1) \<Rightarrow>
          (if io_fault \<sigma>1 then Some (Raised ''sqlite3.Error'', io_tick \<sigma>1)
           else drain_rows H rest
                  (log_event ''INFO'' ''dlq_recovered''
                     ((io_tick \<sigma>1)\<lparr>embed_dlq := filter (\<lambda>r. dlq_key r \<noteq> k) (embed_dlq \<sigma>1)\<rparr>))))"

definition drain_dlq :: "(string \<Rightarrow> string) \<Rightarrow> int \<Rightarrow> sys \<Rightarrow> sys option" where
  "drain_dlq H max_items \<sigma> =
     (if io_fault \<sigma> then Some (log_event ''WARN'' ''dlq_drain_failed'' (io_tick \<sigma>))
      else
        (let rows = list_retryable max_items (embed_dlq \<sigma>); \<sigma>1 = io_tick \<sigma> in
         if rows = [] then Some \<sigma>1
         else (case drain_rows H rows (log_event ''INFO'' ''dlq_drain_start'' \<sigma>1) of
                 None \<Rightarrow> None
               | Some (Raised e, \<sigma>2) \<Rightarrow> Some (log_event ''WARN'' ''dlq_drain_failed'' \<sigma>2)
               | Some (Returned _, \<sigma>2) \<Rightarrow> Some (log_event ''INFO'' ''dlq_drain_complete'' \<sigma>2))))"

subsection \<open>Sink writers\<close>

text \<open>
  \<^verbatim>\<open>_write_to_mvm\<close> runs \<^verbatim>\<open>INSERT OR IGNORE INTO vectors\<close> for each record, \<open>bubble_id\<close> being
  unique in that table; \<^verbatim>\<open>_write_to_qdrant\<close> sends one point for each record, with the
  \<open>bubble_id\<close> as its id, in a single \<^verbatim>\<open>upsert\<close> call. Each is one storage operation inside
  a \<^verbatim>\<open>try\<close> of its own. The collection takes vectors of its own size only: an upsert
  that holds a vector of another length (the empty vector of a blank item, say) is
  refused as a whole, which \<^verbatim>\<open>_write_to_qdrant\<close> logs as \<open>qdrant_write_failed\<close> like any
  other failure of the call.
\<close>

definition mvm_row :: "sys \<Rightarrow> vec_item \<Rightarrow> vector_row" where
  "mvm_row \<sigma> v =
     \<lparr>state_row_id = v_rowid v, vr_bubble_id = v_bubble_id v, vr_composer_id = v_composer_id v,
      CHAT_TIMESTAMP_UTC = v_timestamp v, message_text = take 500 (v_text v),
      vr_bubble_type_name = v_bubble_type v, vr_vector = v_vector v, vector_model = model \<sigma>,
      vector_dimensions = int (length (v_vector v)), vectorized_at = now_utc \<sigma>\<rparr>"

definition vectors_insert :: "vector_row \<Rightarrow> vector_row list \<Rightarrow> vector_row list" where
  "vectors_insert r rows =
     (case find (\<lambda>x. vr_bubble_id x = vr_bubble_id r) rows of None \<Rightarrow> rows @ [r] | Some _ \<Rightarrow> rows)"

fun point_upsert :: "point \<Rightarrow> point list \<Rightarrow> point list" where
  "point_upsert p [] = [p]"
| "point_upsert p (q # qs) = (if point_id q = point_id p then p # qs else q # point_upsert p qs)"

definition write_to_mvm :: "vec_item list \<Rightarrow> sys \<Rightarrow> sys" where
  "write_to_mvm vectors \<sigma> =
     (if io_fault \<sigma> then log_event ''ERROR'' ''mvm_write_failed'' (io_tick \<sigma>)
      else stat_add ''mvm_writes'' (int (length vectors))
             (log_event ''INFO'' ''mvm_write_complete''
                ((io_tick \<sigma>)\<lparr>vectors_tbl :=
                    foldl (\<lambda>tbl v. vectors_insert (mvm_row \<sigma> v) tbl) (vectors_tbl \<sigma>) vectors\<rparr>)))"

definition point_of :: "sys \<Rightarrow> vec_item \<Rightarrow> point" where
  "point_of \<sigma> v =
     \<lparr>point_id = v_bubble_id v, point_vector = v_vector v,
      payload =
        \<lparr>p_bubble_id = v_bubble_id v, p_composer_id = v_composer_id v,
         p_timestamp = v_timestamp v, text_preview = take 500 (v_text v),
         p_bubble_type = v_bubble_type v, p_vector_model = model \<sigma>,
         p_vector_dimensions = int (length (v_vector v)), p_vectorized_at = now_utc \<sigma>\<rparr>\<rparr>"

definition upsert_refused :: "vec_item list \<Rightarrow> sys \<Rightarrow> bool" where
  "upsert_refused vectors \<sigma> =
     list_ex (\<lambda>v. length (v_vector v) \<noteq> collection_size (env \<sigma>)) vectors"

definition write_to_qdrant :: "vec_item list \<Rightarrow> sys \<Rightarrow> sys" where
  "write_to_qdrant vectors \<sigma> =
     (if io_fault \<sigma> \<or> upsert_refused vectors \<sigma>
      then log_event ''ERROR'' ''qdrant_write_failed'' (io_tick \<sigma>)
      else stat_add ''qdrant_writes'' (int (length vectors))
             (log_event ''INFO'' ''qdrant_write_complete''
                ((io_tick \<sigma>)\<lparr>qdrant_points :=
                    foldl (\<lambda>ps v. point_upsert (point_of \<sigma> v) ps)
                          (qdrant_points \<sigma>) vectors\<rparr>)))"

subsection \<open>The batch orchestrator\<close>

text \<open>
  \<^verbatim>\<open>get_queue_size\<close> counts the rows with \<open>processed = 0\<close>, and answers 0 when the read
  fails. \<open>fetch_unprocessed\<close> is the \<^verbatim>\<open>SELECT ... WHERE processed = 0 LIMIT ?\<close> of
  \<open>vectorize_batch\<close>, \<open>mark_processed\<close> its
  \<^verbatim>\<open>UPDATE chat_data SET processed = 1 WHERE rowid IN (...)\<close>, \<open>item_of\<close> the dictionary it
  appends to \<open>vectors\<close>, and \<open>row_text\<close> is \<^verbatim>\<open>row["text"] or ""\<close>.
\<close>

definition get_queue_size :: "sys \<Rightarrow> int \<times> sys" where
  "get_queue_size \<sigma> =
     (if io_fault \<sigma> then (0, log_event ''ERROR'' ''queue_read_failed'' (io_tick \<sigma>))
      else (int (length (filter (\<lambda>r. \<not> processed r) (chat_data \<sigma>))), io_tick \<sigma>))"

definition fetch_unprocessed :: "int \<Rightarrow> chat_row list \<Rightarrow> chat_row list" where
  "fetch_unprocessed batch_size rows = limit_rows batch_size (filter (\<lambda>r. \<not> processed r) rows)"

definition mark_processed :: "int list \<Rightarrow> chat_row list \<Rightarrow> chat_row list" where
  "mark_processed ids rows =
     map (\<lambda>r. if rowid r \<in> set ids then r\<lparr>processed := True\<rparr> else r) rows"

definition item_of :: "chat_row \<Rightarrow> string \<Rightarrow> vector \<Rightarrow> vec_item" where
  "item_of row txt vec =
     \<lparr>v_rowid = rowid row, v_bubble_id = bubble_id row, v_composer_id = composer_id row,
      v_timestamp = created_at_utc row, v_text = txt, v_bubble_type = bubble_type_name row,
      v_vector = vec\<rparr>"

definition row_text :: "chat_row \<Rightarrow> string" where
  "row_text row = (case chat_text row of None \<Rightarrow> [] | Some t \<Rightarrow> t)"

text \<open>
  The loop \<^verbatim>\<open>for row in rows\<close> of \<open>vectorize_batch\<close> with its three lists: a row whose call
  returned \<open>None\<close> goes to \<open>failed\<close>, any other row (the test is \<^verbatim>\<open>vec is None\<close>) goes to
  \<open>vectors\<close> and \<open>rowids_success\<close>. An exception of the call leaves the loop.
\<close>

type_synonym batch_acc = "vec_item list \<times> int list \<times> (int \<times> string) list"

fun embed_rows :: "(string \<Rightarrow> string) \<Rightarrow> chat_row list \<Rightarrow> batch_acc \<Rightarrow> sys \<Rightarrow> (batch_acc outcome \<times> sys) option" where
  "embed_rows H [] acc \<sigma> = Some (Returned acc, \<sigma>)"
| "embed_rows H (row # rows) (vectors, rowids_success, failed) \<sigma> =
     (let txt = row_text row in
      case generate_embedding H txt \<sigma> of
        None \<Rightarrow> None
      | Some (Raised e, \<sigma>1) \<Rightarrow> Some (Raised e, \<sigma>1)
      | Some (Returned None, \<sigma>1) \<Rightarrow>
          embed_rows H rows (vectors, rowids_success, failed @ [(rowid row, bubble_id row)]) \<sigma>1
      | Some (Returned (Some vec), \<sigma>1) \<Rightarrow>
          embed_rows H rows (vectors @ [item_of row txt vec], rowids_success @ [rowid row], failed) \<sigma>1)"

text \<open>\<^verbatim>\<open>if vectors:\<close> write them to the sinks that \<open>target\<close> names.\<close>

definition write_sinks :: "vec_item list \<Rightarrow> sys \<Rightarrow> sys" where
  "write_sinks vectors \<sigma> =
     (if vectors = [] then \<sigma>
      else
        (let \<sigma>1 = (if target \<sigma> = Mvm \<or> target \<sigma> = Both then write_to_mvm vectors \<sigma> else \<sigma>)
         in if target \<sigma>1 = Qdrant \<or> target \<sigma>1 = Both then write_to_qdrant vectors \<sigma>1 else \<sigma>1))"

text \<open>
  The end of \<open>vectorize_batch\<close>: the \<open>UPDATE chat_data SET processed = 1 WHERE rowid IN
  (...)\<close> for the successes, if there are any, and the two log entries. A failure of the
  update reaches the \<open>except\<close> of \<open>vectorize_batch\<close>, which returns 0.
\<close>

definition mark_batch :: "int list \<Rightarrow> (int \<times> string) list \<Rightarrow> sys \<Rightarrow> int \<times> sys" where
  "mark_batch rowids_success failed \<sigma> =
     (if rowids_success \<noteq> [] \<and> io_fault \<sigma>
      then (0, log_event ''ERROR'' ''batch_failed'' (io_tick \<sigma>))
      else
        (let \<sigma>1 = (if rowids_success \<noteq> []
                   then log_event ''INFO'' ''batch_complete''
                          ((io_tick \<sigma>)\<lparr>chat_data :=
                              mark_processed rowids_success (chat_data \<sigma>)\<rparr>)
                   else \<sigma>);
             \<sigma>2 = (if failed \<noteq> []
                   then log_event ''WARN'' ''batch_partial_fail'' \<sigma>1 else \<sigma>1)
         in (int (length rowids_success), \<sigma>2)))"

text \<open>
  \<open>vectorize_batch\<close>: read the batch, return 0 when it is empty, embed the rows, write the
  sinks, mark the successes. The \<^verbatim>\<open>except Exception\<close> around all of it logs \<open>batch_failed\<close>
  and returns 0.
\<close>

definition vectorize_batch :: "(string \<Rightarrow> string) \<Rightarrow> int \<Rightarrow> sys \<Rightarrow> (int \<times> sys) option" where
  "vectorize_batch H batch_size \<sigma> =
     (if io_fault \<sigma> then Some (0, log_event ''ERROR'' ''batch_failed'' (io_tick \<sigma>))
      else
        (let rows = fetch_unprocessed batch_size (chat_data \<sigma>); \<sigma>1 = io_tick \<sigma> in
         if rows = [] then Some (0, \<sigma>1)
         else
           (case embed_rows H rows ([], [], []) (log_event ''INFO'' ''batch_start'' \<sigma>1) of
              None \<Rightarrow> None
            | Some (Raised e, \<sigma>2) \<Rightarrow> Some (0, log_event ''ERROR'' ''batch_failed'' \<sigma>2)
            | Some (Returned (vectors, rowids_success, failed), \<sigma>2) \<Rightarrow>
                Some (mark_batch rowids_success failed (write_sinks vectors \<sigma>2)))))"

text \<open>
  The two modes. \<open>instant_loop\<close> is \<^verbatim>\<open>while self.get_queue_size() > 0\<close> of
  \<open>run_instant_mode\<close>, left when a batch returns 0; \<open>bulk_loop\<close> is
  \<^verbatim>\<open>for batch_num in range(max_batches)\<close> of \<open>run_bulk_mode\<close>, with the progress entry and
  the pause of two seconds after each batch. Both modes drain the dead letter table
  first and return 0 at once when the queue is empty.
\<close>

partial_function (option) instant_loop :: "(string \<Rightarrow> string) \<Rightarrow> int \<Rightarrow> sys \<Rightarrow> (int \<times> sys) option" where
  "instant_loop H tot \<sigma> =
     (case get_queue_size \<sigma> of
        (q, \<sigma>1) \<Rightarrow>
          if 0 < q then
            (case vectorize_batch H 10 \<sigma>1 of
               None \<Rightarrow> None
             | Some (n, \<sigma>2) \<Rightarrow> if n = 0 then Some (tot, \<sigma>2) else instant_loop H (tot + n) \<sigma>2)
          else Some (tot, \<sigma>1))"

definition run_instant_mode :: "(string \<Rightarrow> string) \<Rightarrow> sys \<Rightarrow> (int \<times> sys) option" where
  "run_instant_mode H \<sigma> =
     (case drain_dlq H 25 \<sigma> of
        None \<Rightarrow> None
      | Some \<sigma>1 \<Rightarrow>
          (case get_queue_size \<sigma>1 of
             (queue_size, \<sigma>2) \<Rightarrow>
               if queue_size = 0 then Some (0, \<sigma>2)
               else instant_loop H 0 (log_event ''INFO'' ''mode_instant'' \<sigma>2)))"

fun bulk_loop :: "(string \<Rightarrow> string) \<Rightarrow> nat list \<Rightarrow> int \<Rightarrow> sys \<Rightarrow> (int \<times> sys) option" where
  "bulk_loop H [] tot \<sigma> = Some (tot, \<sigma>)"
| "bulk_loop H (batch_num # rest) tot \<sigma> =
     (case vectorize_batch H 10 \<sigma> of
        None \<Rightarrow> None
      | Some (n, \<sigma>1) \<Rightarrow>
          if n = 0 then Some (tot, \<sigma>1)
          else (case get_queue_size \<sigma>1 of
                  (remaining, \<sigma>2) \<Rightarrow>
                    bulk_loop H rest (tot + n)
                      (sleep_for 2 (log_event ''INFO'' ''bulk_batch_progress'' \<sigma>2))))"

definition run_bulk_mode :: "(string \<Rightarrow> string) \<Rightarrow> int \<Rightarrow> sys \<Rightarrow> (int \<times> sys) option" where
  "run_bulk_mode H max_batches \<sigma> =
     (case drain_dlq H 25 \<sigma> of
        None \<Rightarrow> None
      | Some \<sigma>1 \<Rightarrow>
          (case get_queue_size \<sigma>1 of
             (queue_size, \<sigma>2) \<Rightarrow>
               if queue_size = 0 then Some (0, \<sigma>2)
               else (case bulk_loop H [0..<nat max_batches] 0 (log_event ''INFO'' ''mode_bulk'' \<sigma>2) of
                       None \<Rightarrow> None
                     | Some (tot, \<sigma>3) \<Rightarrow>
                         (case get_queue_size \<sigma>3 of (remaining, \<sigma>4) \<Rightarrow> Some (tot, \<sigma>4)))))"

section \<open>Fixtures for the concrete runs\<close>

text \<open>
  Two environments for the concrete runs below: in \<open>quiet_world\<close> no storage operation
  fails and the inference endpoint refuses every call; in \<open>good_world\<close> the endpoint
  answers every prompt but \<open>''bad''\<close> with a two-dimensional vector; in
  \<open>broken_store_world\<close> every storage operation fails; in \<open>flaky_world\<close> the endpoint
  fails once and answers from then on, and every random draw is a half. The Qdrant
  collection of each takes vectors of size two.
\<close>

definition quiet_world :: world where
  "quiet_world =
     \<lparr>faults = (\<lambda>_. False), ollama = (\<lambda>n p. HttpError ''connection refused''),
      rand = (\<lambda>_. 0), collection_size = 2\<rparr>"

definition good_world :: world where
  "good_world =
     \<lparr>faults = (\<lambda>_. False),
      ollama = (\<lambda>n p. if p = ''bad'' then HttpError ''500''
                       else Payload (EmbList [JNumber 1, JNumber 2])),
      rand = (\<lambda>_. 0), collection_size = 2\<rparr>"

definition broken_store_world :: world where
  "broken_store_world =
     \<lparr>faults = (\<lambda>_. True),
      ollama = (\<lambda>n p. Payload (EmbList [JNumber 1, JNumber 2])), rand = (\<lambda>_. 0),
      collection_size = 2\<rparr>"

definition flaky_world :: world where
  "flaky_world =
     \<lparr>faults = (\<lambda>_. False),
      ollama = (\<lambda>n p. if n = 0 then HttpError ''timeout''
                       else Payload (EmbList [JNumber 1, JNumber 2])),
      rand = (\<lambda>_. 1 / 2), collection_size = 2\<rparr>"

text \<open>Three work items: a blank text, a text the endpoint of \<open>good_world\<close> rejects, a good one.\<close>

definition blank_row :: chat_row where
  "blank_row = \<lparr>rowid = 1, bubble_id = ''b1'', composer_id = ''c1'',
                 created_at_utc = ''2025-11-05 08:47:00'', chat_text = Some ''   '',
                 bubble_type_name = ''user'', processed = False\<rparr>"

definition bad_row :: chat_row where
  "bad_row = \<lparr>rowid = 2, bubble_id = ''b2'', composer_id = ''c1'',
               created_at_utc = ''2025-11-05 08:48:00'', chat_text = Some ''bad'',
               bubble_type_name = ''assistant'', processed = False\<rparr>"

definition hello_row :: chat_row where
  "hello_row = \<lparr>rowid = 3, bubble_id = ''b3'', composer_id = ''c1'',
                 created_at_utc = ''2025-11-05 08:49:00'', chat_text = Some ''hello'',
                 bubble_type_name = ''user'', processed = False\<rparr>"


section \<open>Upsert into the dead letter table\<close>

lemma dlq_upsert_absent:
  "k \<notin> dlq_key ` set rows \<Longrightarrow>
   dlq_upsert k t e now rows
     = rows @ [\<lparr>dlq_key = k, dlq_text = t, last_error = e, attempts = 1, last_attempt_at = now\<rparr>]"
  by (induction rows) auto

lemma dlq_upsert_present:
  "distinct (map dlq_key rows) \<Longrightarrow> k \<in> dlq_key ` set rows \<Longrightarrow>
   dlq_upsert k t e now rows
     = map (\<lambda>r. if dlq_key r = k
                then r\<lparr>last_error := e, attempts := attempts r + 1, last_attempt_at := now\<rparr>
                else r) rows"
proof (induction rows)
  case Nil
  then show ?case by simp
next
  case (Cons r rs)
  show ?case
  proof (cases "dlq_key r = k")
    case True
    have "dlq_key r \<notin> set (map dlq_key rs)" using Cons.prems(1) by simp
    with True have "\<forall>x \<in> set rs. dlq_key x \<noteq> k" by (metis image_eqI set_map)
    then have "map (\<lambda>r. if dlq_key r = k
                then r\<lparr>last_error := e, attempts := attempts r + 1, last_attempt_at := now\<rparr>
                else r) rs = rs"
      by (induction rs) auto
    with True show ?thesis by simp
  next
    case False
    with Cons show ?thesis by auto
  qed
qed

lemma dlq_upsert_keys:
  "map dlq_key (dlq_upsert k t e now rows)
     = (if k \<in> dlq_key ` set rows then map dlq_key rows else map dlq_key rows @ [k])"
  by (induction rows) auto

lemma dlq_upsert_twice:
  assumes "k \<notin> dlq_key ` set rows"
  shows "filter (\<lambda>r. dlq_key r = k) (dlq_upsert k t e2 now2 (dlq_upsert k t e1 now1 rows))
     = [\<lparr>dlq_key = k, dlq_text = t, last_error = e2, attempts = 2, last_attempt_at = now2\<rparr>]"
  using assms by (induction rows) auto

section \<open>C5: the circuit breaker gate\<close>

text \<open>
  Claim C5. At the gate, when \<open>cb_failures \<ge> cb_threshold\<close> (default 10) the caller is
  slept for \<open>cb_pause_s * min (circuit_trips + 1) 5\<close> seconds; the gate is a function
  from states to states, it has no error result. After the pause the consecutive-failure
  counter is 0 and the trip counter is one higher. When \<open>cb_failures < cb_threshold\<close>
  the gate leaves the state as it is.
\<close>

theorem cool_if_cb_open_gate:
  "(cb_threshold \<sigma> \<le> cb_failures \<sigma> \<longrightarrow>
      slept (cool_if_cb_open \<sigma>)
        = slept \<sigma> @ [cb_pause_s \<sigma> * of_int (min (stats \<sigma> ''circuit_trips'' + 1) 5)]
      \<and> clock (cool_if_cb_open \<sigma>)
        = clock \<sigma> + max (cb_pause_s \<sigma> * of_int (min (stats \<sigma> ''circuit_trips'' + 1) 5)) 0
      \<and> cb_failures (cool_if_cb_open \<sigma>) = 0
      \<and> stats (cool_if_cb_open \<sigma>) ''circuit_trips'' = stats \<sigma> ''circuit_trips'' + 1
      \<and> posts (cool_if_cb_open \<sigma>) = posts \<sigma>)
   \<and> (cb_failures \<sigma> < cb_threshold \<sigma> \<longrightarrow> cool_if_cb_open \<sigma> = \<sigma>)
   \<and> failure_threshold CONFIG_DEFAULTS = 10"
  by (simp add: cool_if_cb_open_def Let_def sleep_for_def log_event_def stat_add_def
      CONFIG_DEFAULTS_def)

theorem cool_if_cb_open_gate_witness:
  "slept (cool_if_cb_open
            ((new_engine CONFIG_DEFAULTS Both quiet_world 0 [])\<lparr>cb_failures := 10\<rparr>)) = [30]
   \<and> cb_failures (cool_if_cb_open
            ((new_engine CONFIG_DEFAULTS Both quiet_world 0 [])\<lparr>cb_failures := 10\<rparr>)) = 0
   \<and> stats (cool_if_cb_open
            ((new_engine CONFIG_DEFAULTS Both quiet_world 0 [])\<lparr>cb_failures := 10\<rparr>))
         ''circuit_trips'' = 1
   \<and> cool_if_cb_open
            ((new_engine CONFIG_DEFAULTS Both quiet_world 0 [])\<lparr>cb_failures := 9\<rparr>)
       = (new_engine CONFIG_DEFAULTS Both quiet_world 0 [])\<lparr>cb_failures := 9\<rparr>"
  using
    cool_if_cb_open_gate[of "(new_engine CONFIG_DEFAULTS Both quiet_world 0 [])\<lparr>cb_failures := 10\<rparr>"]
    cool_if_cb_open_gate[of "(new_engine CONFIG_DEFAULTS Both quiet_world 0 [])\<lparr>cb_failures := 9\<rparr>"]
  by (simp add: new_engine_def CONFIG_DEFAULTS_def)

section \<open>The rate limiter loop\<close>

text \<open>
  \<open>paced \<sigma> \<sigma>'\<close>: the two states differ at most in the token bucket, the clock and the
  list of sleeps, which is all that \<open>_take_token\<close> writes.
\<close>

definition paced :: "sys \<Rightarrow> sys \<Rightarrow> bool" where
  "paced \<sigma> \<sigma>' \<longleftrightarrow>
     \<sigma>' = \<sigma>\<lparr>tokens := tokens \<sigma>', token_last := token_last \<sigma>', clock := clock \<sigma>',
             slept := slept \<sigma>'\<rparr>"

lemma paced_refl: "paced \<sigma> \<sigma>"
  by (simp add: paced_def)

lemma paced_trans:
  assumes "paced a b" "paced b c"
  shows "paced a c"
proof -
  from assms(1) have b: "b = a\<lparr>tokens := tokens b, token_last := token_last b, clock := clock b,
             slept := slept b\<rparr>" by (simp add: paced_def)
  from assms(2) have c: "c = b\<lparr>tokens := tokens c, token_last := token_last c, clock := clock c,
             slept := slept c\<rparr>" by (simp add: paced_def)
  have "c = a\<lparr>tokens := tokens c, token_last := token_last c, clock := clock c,
             slept := slept c\<rparr>"
    by (subst c, subst b) simp
  then show ?thesis by (simp add: paced_def)
qed

lemma take_token_paced: "paced \<sigma> (snd (take_token \<sigma>))"
  by (simp add: take_token_def Let_def sleep_for_def paced_def)

text \<open>
  \<open>refill \<sigma>\<close> is the bucket level that \<open>_take_token\<close> computes first. The pacing loop
  \<open>while not await self._take_token(): pass\<close> returns whenever the refill rate is
  positive and the bucket holds at least one token when full: every sleep brings the level
  up by \<open>tokens_per_sec / 2\<close>, or to a full token.
\<close>

lemma acquire_paced:
  assumes "acquire \<sigma> = Some y"
  shows "paced \<sigma> (snd y)"
proof (rule acquire.raw_induct[OF _ assms])
  fix acq :: "sys \<Rightarrow> (unit outcome \<times> sys) option" and \<sigma> y
  assume IH: "\<And>x y. acq x = Some y \<Longrightarrow> paced x (snd y)"
    and eq: "(case take_token \<sigma> of
               (Returned ok, \<sigma>1) \<Rightarrow> if ok then Some (Returned (), \<sigma>1) else acq \<sigma>1
             | (Raised e, \<sigma>1) \<Rightarrow> Some (Raised e, \<sigma>1)) = Some y"
  have p1: "paced \<sigma> (snd (take_token \<sigma>))" by (rule take_token_paced)
  obtain o1 \<sigma>1 where tt: "take_token \<sigma> = (o1, \<sigma>1)" by (cases "take_token \<sigma>")
  with p1 have p: "paced \<sigma> \<sigma>1" by simp
  show "paced \<sigma> (snd y)"
  proof (cases o1)
    case (Raised e)
    with eq tt p show ?thesis by auto
  next
    case (Returned ok)
    show ?thesis
    proof (cases ok)
      case True
      with eq tt p Returned show ?thesis by auto
    next
      case False
      with eq tt Returned have "acq \<sigma>1 = Some y" by simp
      from p IH[OF this] show ?thesis by (rule paced_trans)
    qed
  qed
qed

definition refill :: "sys \<Rightarrow> rat" where
  "refill \<sigma> = min (bucket_size \<sigma>) (tokens \<sigma> + (clock \<sigma> - token_last \<sigma>) * tokens_per_sec \<sigma>)"

lemma take_token_ready:
  "1 \<le> refill \<sigma> \<Longrightarrow>
   take_token \<sigma> = (Returned True, \<sigma>\<lparr>tokens := refill \<sigma> - 1, token_last := clock \<sigma>\<rparr>)"
  by (simp add: take_token_def refill_def Let_def)

lemma acquire_ready:
  "1 \<le> refill \<sigma> \<Longrightarrow>
   acquire \<sigma> = Some (Returned (), \<sigma>\<lparr>tokens := refill \<sigma> - 1, token_last := clock \<sigma>\<rparr>)"
  by (subst acquire.simps) (simp add: take_token_ready)

lemma take_token_wait:
  assumes "refill \<sigma> < 1" "tokens_per_sec \<sigma> \<noteq> 0"
  shows "take_token \<sigma> =
     (Returned False,
      sleep_for (min ((1 - refill \<sigma>) / tokens_per_sec \<sigma>) (1 / 2))
        (\<sigma>\<lparr>tokens := refill \<sigma>, token_last := clock \<sigma>\<rparr>))"
proof -
  from assms(1) have "\<not> 1 \<le> refill \<sigma>" by simp
  then show ?thesis using assms(2)
    unfolding take_token_def Let_def refill_def[symmetric] by simp
qed

lemma acquire_wait:
  assumes "refill \<sigma> < 1" "tokens_per_sec \<sigma> \<noteq> 0"
  shows "acquire \<sigma> =
     acquire (sleep_for (min ((1 - refill \<sigma>) / tokens_per_sec \<sigma>) (1 / 2))
        (\<sigma>\<lparr>tokens := refill \<sigma>, token_last := clock \<sigma>\<rparr>))"
  by (subst acquire.simps) (simp add: take_token_wait[OF assms])

lemma refill_sleep_for:
  "refill (sleep_for w \<tau>)
     = min (bucket_size \<tau>) (tokens \<tau> + (clock \<tau> + max w 0 - token_last \<tau>) * tokens_per_sec \<tau>)"
  by (simp add: refill_def sleep_for_def)

lemma refill_after_wait:
  assumes d: "refill \<sigma> < 1" and r: "0 < tokens_per_sec \<sigma>"
  shows "refill (sleep_for (min ((1 - refill \<sigma>) / tokens_per_sec \<sigma>) (1 / 2))
        (\<sigma>\<lparr>tokens := refill \<sigma>, token_last := clock \<sigma>\<rparr>))
      = min (bucket_size \<sigma>) (refill \<sigma> + min (1 - refill \<sigma>) (tokens_per_sec \<sigma> / 2))"
proof -
  define w where "w = min ((1 - refill \<sigma>) / tokens_per_sec \<sigma>) (1 / 2)"
  have pos: "0 \<le> w" using d r by (simp add: w_def)
  have wr: "w * tokens_per_sec \<sigma> = min (1 - refill \<sigma>) (tokens_per_sec \<sigma> / 2)"
    using r by (simp add: w_def min_def field_simps)
  have "refill (sleep_for w (\<sigma>\<lparr>tokens := refill \<sigma>, token_last := clock \<sigma>\<rparr>))
      = min (bucket_size \<sigma>) (refill \<sigma> + (clock \<sigma> + max w 0 - clock \<sigma>) * tokens_per_sec \<sigma>)"
    by (simp add: refill_sleep_for)
  also have "(clock \<sigma> + max w 0 - clock \<sigma>) = w" using pos by simp
  finally show ?thesis unfolding wr w_def[symmetric] .
qed

lemma acquire_returns_aux:
  assumes "0 < tokens_per_sec \<sigma>" "1 \<le> bucket_size \<sigma>"
    and "1 - refill \<sigma> \<le> of_nat n * (tokens_per_sec \<sigma> / 2)"
  shows "\<exists>\<sigma>'. acquire \<sigma> = Some (Returned (), \<sigma>')"
  using assms
proof (induction n arbitrary: \<sigma>)
  case 0
  then have "1 \<le> refill \<sigma>" by simp
  then show ?case by (simp add: acquire_ready)
next
  case (Suc n)
  show ?case
  proof (cases "1 \<le> refill \<sigma>")
    case True
    then show ?thesis by (simp add: acquire_ready)
  next
    case False
    then have d: "refill \<sigma> < 1" by simp
    let ?\<sigma>1 = "sleep_for (min ((1 - refill \<sigma>) / tokens_per_sec \<sigma>) (1 / 2))
        (\<sigma>\<lparr>tokens := refill \<sigma>, token_last := clock \<sigma>\<rparr>)"
    have r0: "tokens_per_sec \<sigma> \<noteq> 0" using Suc.prems(1) by simp
    have eq: "acquire \<sigma> = acquire ?\<sigma>1" by (rule acquire_wait[OF d r0])
    have rf: "refill ?\<sigma>1 = min (bucket_size \<sigma>) (refill \<sigma> + min (1 - refill \<sigma>) (tokens_per_sec \<sigma> / 2))"
      by (rule refill_after_wait[OF d Suc.prems(1)])
    have f1: "tokens_per_sec ?\<sigma>1 = tokens_per_sec \<sigma>" "bucket_size ?\<sigma>1 = bucket_size \<sigma>"
      by (simp_all add: sleep_for_def)
    have "of_nat (Suc n) * (tokens_per_sec \<sigma> / 2) = of_nat n * (tokens_per_sec \<sigma> / 2) + tokens_per_sec \<sigma> / 2"
      by (simp add: algebra_simps)
    with Suc.prems(3) have b: "1 - refill \<sigma> \<le> of_nat n * (tokens_per_sec \<sigma> / 2) + tokens_per_sec \<sigma> / 2"
      by simp
    have nn: "0 \<le> of_nat n * (tokens_per_sec \<sigma> / 2)" using Suc.prems(1) by simp
    have "1 - refill ?\<sigma>1 \<le> of_nat n * (tokens_per_sec \<sigma> / 2)"
      unfolding rf using b nn Suc.prems(2) by (simp add: min_def)
    with Suc.IH[of ?\<sigma>1] f1 Suc.prems(1,2) show ?thesis unfolding eq by simp
  qed
qed

lemma acquire_returns:
  assumes "0 < tokens_per_sec \<sigma>" "1 \<le> bucket_size \<sigma>"
  shows "\<exists>\<sigma>'. acquire \<sigma> = Some (Returned (), \<sigma>')"
proof -
  obtain n :: nat where "(1 - refill \<sigma>) / (tokens_per_sec \<sigma> / 2) \<le> of_nat n"
    using real_arch_simple by blast
  then have "1 - refill \<sigma> \<le> of_nat n * (tokens_per_sec \<sigma> / 2)"
    using assms(1) by (simp add: pos_divide_le_eq)
  from acquire_returns_aux[OF assms this] show ?thesis .
qed

section \<open>What the embedding client leaves alone\<close>

text \<open>
  \<open>client_frame \<sigma> \<sigma>'\<close>: configuration, environment, sink tables and the work queue are
  the same in both states. No step of \<open>generate_embedding\<close> writes any of them.
\<close>

definition client_frame :: "sys \<Rightarrow> sys \<Rightarrow> bool" where
  "client_frame \<sigma> \<sigma>' \<longleftrightarrow>
     target \<sigma>' = target \<sigma> \<and> model \<sigma>' = model \<sigma> \<and> tokens_per_sec \<sigma>' = tokens_per_sec \<sigma>
     \<and> bucket_size \<sigma>' = bucket_size \<sigma> \<and> cb_threshold \<sigma>' = cb_threshold \<sigma>
     \<and> cb_pause_s \<sigma>' = cb_pause_s \<sigma> \<and> rp \<sigma>' = rp \<sigma> \<and> env \<sigma>' = env \<sigma>
     \<and> vectors_tbl \<sigma>' = vectors_tbl \<sigma> \<and> qdrant_points \<sigma>' = qdrant_points \<sigma>
     \<and> chat_data \<sigma>' = chat_data \<sigma>"

lemma client_frame_refl [simp]: "client_frame \<sigma> \<sigma>"
  by (simp add: client_frame_def)

lemma client_frame_trans: "client_frame a b \<Longrightarrow> client_frame b c \<Longrightarrow> client_frame a c"
  by (simp add: client_frame_def)

lemma paced_client_frame: "paced \<sigma> \<sigma>' \<Longrightarrow> client_frame \<sigma> \<sigma>'"
proof -
  assume "paced \<sigma> \<sigma>'"
  then have e: "\<sigma>' = \<sigma>\<lparr>tokens := tokens \<sigma>', token_last := token_last \<sigma>', clock := clock \<sigma>',
             slept := slept \<sigma>'\<rparr>" by (simp add: paced_def)
  show ?thesis unfolding client_frame_def by (subst e, simp)+
qed

text \<open>
  \<open>inner_frame\<close>: what the part of \<open>generate_embedding\<close> behind the pacing loop leaves
  alone, which is the client frame, the table flag and the token bucket.
\<close>

definition inner_frame :: "sys \<Rightarrow> sys \<Rightarrow> bool" where
  "inner_frame \<sigma> \<sigma>' \<longleftrightarrow>
     client_frame \<sigma> \<sigma>' \<and> cache_initialized \<sigma>' = cache_initialized \<sigma>
     \<and> tokens \<sigma>' = tokens \<sigma> \<and> token_last \<sigma>' = token_last \<sigma>"

lemma inner_frame_refl [simp]: "inner_frame \<sigma> \<sigma>"
  by (simp add: inner_frame_def)

lemma inner_frame_trans: "inner_frame a b \<Longrightarrow> inner_frame b c \<Longrightarrow> inner_frame a c"
  by (simp add: inner_frame_def client_frame_def)

lemma inner_frame_client: "inner_frame \<sigma> \<sigma>' \<Longrightarrow> client_frame \<sigma> \<sigma>'"
  by (simp add: inner_frame_def)

lemma inner_frame_absorb [simp]:
  "inner_frame \<sigma> (log_event l ev \<tau>) = inner_frame \<sigma> \<tau>"
  "inner_frame \<sigma> (sleep_for d \<tau>) = inner_frame \<sigma> \<tau>"
  "inner_frame \<sigma> (stat_add n i \<tau>) = inner_frame \<sigma> \<tau>"
  "inner_frame \<sigma> (io_tick \<tau>) = inner_frame \<sigma> \<tau>"
  "inner_frame \<sigma> (cache_write k v \<tau>) = inner_frame \<sigma> \<tau>"
  "inner_frame \<sigma> (dlq_write k t e \<tau>) = inner_frame \<sigma> \<tau>"
  "inner_frame \<sigma> (cool_if_cb_open \<tau>) = inner_frame \<sigma> \<tau>"
  "inner_frame \<sigma> (snd (post_embedding p \<tau>)) = inner_frame \<sigma> \<tau>"
  "inner_frame \<sigma> (\<tau>\<lparr>cb_failures := c\<rparr>) = inner_frame \<sigma> \<tau>"
  "inner_frame \<sigma> (\<tau>\<lparr>draws := n'\<rparr>) = inner_frame \<sigma> \<tau>"
  "inner_frame \<sigma> (\<tau>\<lparr>embed_dlq := q\<rparr>) = inner_frame \<sigma> \<tau>"
  "inner_frame \<sigma> (\<tau>\<lparr>embed_cache := ca\<rparr>) = inner_frame \<sigma> \<tau>"
  "inner_frame \<sigma> (\<tau>\<lparr>stats := st\<rparr>) = inner_frame \<sigma> \<tau>"
  "inner_frame \<sigma> (\<tau>\<lparr>posts := n'\<rparr>) = inner_frame \<sigma> \<tau>"
  "inner_frame \<sigma> (\<tau>\<lparr>ops := n'\<rparr>) = inner_frame \<sigma> \<tau>"
  "inner_frame \<sigma> (\<tau>\<lparr>events := evs\<rparr>) = inner_frame \<sigma> \<tau>"
  "inner_frame \<sigma> (\<tau>\<lparr>clock := cl\<rparr>) = inner_frame \<sigma> \<tau>"
  "inner_frame \<sigma> (\<tau>\<lparr>slept := sl\<rparr>) = inner_frame \<sigma> \<tau>"
  by (simp_all add: inner_frame_def client_frame_def log_event_def sleep_for_def stat_add_def io_tick_def
      cache_write_def dlq_write_def cool_if_cb_open_def post_embedding_def Let_def)

lemma retry_loop_frame: "inner_frame \<sigma> (snd (retry_loop k p as \<sigma>))"
proof (induction as arbitrary: \<sigma>)
  case Nil
  show ?case by simp
next
  case (Cons a as)
  obtain r \<sigma>1 where pe: "post_embedding p \<sigma> = (r, \<sigma>1)" by (cases "post_embedding p \<sigma>")
  have f1: "inner_frame \<sigma> \<sigma>1"
    using inner_frame_absorb(8)[of \<sigma> p \<sigma>] pe by simp
  show ?case
  proof (cases r)
    case (Inr vec)
    with pe f1 show ?thesis by simp
  next
    case (Inl e)
    show ?thesis
    proof (cases "int a < rp_attempts (rp \<sigma>1) - 1")
      case True
      let ?\<sigma>2 = "(stat_add ''embedding_errors'' 1 \<sigma>1)\<lparr>cb_failures := cb_failures \<sigma>1 + 1\<rparr>"
      let ?d = "min (rp_base_ms (rp \<sigma>1) * 2 ^ a) (rp_max_ms (rp \<sigma>1))"
      let ?\<sigma>3 = "log_event ''WARN'' ''embedding_retry''
          (sleep_for ((?d + ?d * (1 / 10) * rand (env \<sigma>1) (draws \<sigma>1)) / 1000)
             (?\<sigma>2\<lparr>draws := Suc (draws \<sigma>1)\<rparr>))"
      have step: "retry_loop k p (a # as) \<sigma> = retry_loop k p as ?\<sigma>3"
        using pe Inl True by (simp add: Let_def stat_add_def)
      have "inner_frame \<sigma> ?\<sigma>3" using f1 by simp
      with Cons.IH[of ?\<sigma>3] show ?thesis unfolding step by (rule inner_frame_trans[rotated])
    next
      case False
      with pe Inl f1 show ?thesis by (simp add: Let_def stat_add_def)
    qed
  qed
qed

lemma embed_body_frame: "inner_frame \<sigma> (snd (embed_body H t \<sigma>))"
proof -
  have a: "\<And>k p as \<tau>. inner_frame \<sigma> \<tau> \<Longrightarrow> inner_frame \<sigma> (snd (retry_loop k p as \<tau>))"
    using retry_loop_frame inner_frame_trans by blast
  show ?thesis
    by (simp add: embed_body_def Let_def a split: option.split)
qed

lemma ensure_cache_tables_frame: "client_frame \<sigma> (snd (ensure_cache_tables \<sigma>))"
  by (simp add: ensure_cache_tables_def client_frame_def io_tick_def)

lemma generate_embedding_frame:
  assumes "generate_embedding H t \<sigma> = Some y"
  shows "client_frame \<sigma> (snd y)"
proof -
  obtain o1 \<sigma>1 where e: "ensure_cache_tables \<sigma> = (o1, \<sigma>1)" by (cases "ensure_cache_tables \<sigma>")
  with ensure_cache_tables_frame[of \<sigma>] have f1: "client_frame \<sigma> \<sigma>1" by simp
  show ?thesis
  proof (cases o1)
    case (Raised x)
    with assms e f1 show ?thesis by (auto simp: generate_embedding_def)
  next
    case (Returned u)
    show ?thesis
    proof (cases "acquire \<sigma>1")
      case None
      with assms e Returned show ?thesis by (simp add: generate_embedding_def)
    next
      case (Some z)
      obtain o2 \<sigma>2 where z: "z = (o2, \<sigma>2)" by (cases z)
      from acquire_paced[OF Some] z have "client_frame \<sigma>1 \<sigma>2" by (simp add: paced_client_frame)
      with f1 have f2: "client_frame \<sigma> \<sigma>2" by (rule client_frame_trans)
      show ?thesis
      proof (cases o2)
        case (Raised x)
        with assms e Returned Some z f2 show ?thesis by (auto simp: generate_embedding_def)
      next
        case (Returned u2)
        have "client_frame \<sigma> (snd (embed_body H t \<sigma>2))"
          using f2 inner_frame_client[OF embed_body_frame[of \<sigma>2 H t]] by (rule client_frame_trans)
        with assms e \<open>o1 = Returned u\<close> Some z Returned show ?thesis
          by (auto simp: generate_embedding_def split: prod.splits)
      qed
    qed
  qed
qed

section \<open>Steps of \<open>generate_embedding\<close>\<close>

lemma ensure_cache_tables_ok:
  assumes "cache_initialized \<sigma> \<or> \<not> io_fault \<sigma>"
  shows "ensure_cache_tables \<sigma>
     = (Returned (), if cache_initialized \<sigma> then \<sigma> else (io_tick \<sigma>)\<lparr>cache_initialized := True\<rparr>)"
  using assms by (auto simp: ensure_cache_tables_def)

lemma ensure_cache_tables_initialized:
  "ensure_cache_tables \<sigma> = (Returned u, \<sigma>1) \<Longrightarrow> cache_initialized \<sigma>1"
  by (auto simp: ensure_cache_tables_def split: if_splits)

lemma generate_embedding_steps:
  assumes "ensure_cache_tables \<sigma> = (Returned (), \<sigma>1)" "acquire \<sigma>1 = Some (Returned (), \<sigma>2)"
  shows "generate_embedding H t \<sigma>
     = Some (Returned (fst (embed_body H t \<sigma>2)), snd (embed_body H t \<sigma>2))"
  using assms by (simp add: generate_embedding_def split: prod.split)

lemma generate_embedding_returned:
  assumes "generate_embedding H t \<sigma> = Some (Returned r, \<sigma>')"
  shows "\<exists>\<sigma>1 \<sigma>2. ensure_cache_tables \<sigma> = (Returned (), \<sigma>1) \<and> acquire \<sigma>1 = Some (Returned (), \<sigma>2)
           \<and> embed_body H t \<sigma>2 = (r, \<sigma>')"
  using assms
  by (auto simp: generate_embedding_def split: prod.splits outcome.splits option.splits)

lemma embed_body_empty:
  "norm_text t 8000 = [] \<Longrightarrow> embed_body H t \<sigma> = (Some [], stat_add ''empty_text'' 1 \<sigma>)"
  by (simp add: embed_body_def)

lemma embed_body_hit:
  assumes "norm_text t 8000 \<noteq> []" "\<not> io_fault \<sigma>"
    "cache_lookup (hash_key H (norm_text t 8000)) (embed_cache \<sigma>) = Some row"
  shows "embed_body H t \<sigma>
     = (Some (cache_vector row),
        log_event ''INFO'' ''cache_hit'' (stat_add ''cache_hits'' 1 (io_tick \<sigma>)))"
  using assms by (simp add: embed_body_def Let_def)

lemma paced_fields:
  assumes "paced \<sigma> \<sigma>'"
  shows "posts \<sigma>' = posts \<sigma>" "embed_cache \<sigma>' = embed_cache \<sigma>" "embed_dlq \<sigma>' = embed_dlq \<sigma>"
    "ops \<sigma>' = ops \<sigma>" "cb_failures \<sigma>' = cb_failures \<sigma>" "stats \<sigma>' = stats \<sigma>"
    "events \<sigma>' = events \<sigma>" "cache_initialized \<sigma>' = cache_initialized \<sigma>"
    "draws \<sigma>' = draws \<sigma>" "env \<sigma>' = env \<sigma>"
proof -
  from assms have e: "\<sigma>' = \<sigma>\<lparr>tokens := tokens \<sigma>', token_last := token_last \<sigma>', clock := clock \<sigma>',
             slept := slept \<sigma>'\<rparr>" by (simp add: paced_def)
  show "posts \<sigma>' = posts \<sigma>" by (subst e) simp
  show "embed_cache \<sigma>' = embed_cache \<sigma>" by (subst e) simp
  show "embed_dlq \<sigma>' = embed_dlq \<sigma>" by (subst e) simp
  show "ops \<sigma>' = ops \<sigma>" by (subst e) simp
  show "cb_failures \<sigma>' = cb_failures \<sigma>" by (subst e) simp
  show "stats \<sigma>' = stats \<sigma>" by (subst e) simp
  show "events \<sigma>' = events \<sigma>" by (subst e) simp
  show "cache_initialized \<sigma>' = cache_initialized \<sigma>" by (subst e) simp
  show "draws \<sigma>' = draws \<sigma>" by (subst e) simp
  show "env \<sigma>' = env \<sigma>" by (subst e) simp
qed

section \<open>C3: a second call is served from the cache\<close>

lemma generate_embedding_initialized:
  assumes "generate_embedding H t \<sigma> = Some (Returned r, \<sigma>')"
  shows "cache_initialized \<sigma>'"
proof -
  from generate_embedding_returned[OF assms] obtain \<sigma>1 \<sigma>2 where
    e: "ensure_cache_tables \<sigma> = (Returned (), \<sigma>1)" and a: "acquire \<sigma>1 = Some (Returned (), \<sigma>2)"
    and b: "embed_body H t \<sigma>2 = (r, \<sigma>')" by blast
  from ensure_cache_tables_initialized[OF e] have "cache_initialized \<sigma>1" .
  with paced_fields(8)[OF acquire_paced[OF a]] have "cache_initialized \<sigma>2" by simp
  with embed_body_frame[of \<sigma>2 H t] b show ?thesis by (simp add: inner_frame_def)
qed

text \<open>
  Claim C3. If \<open>generate_embedding\<close> returned a vector \<open>v\<close> for \<open>t1\<close> and the cache then
  holds \<open>v\<close> under the key of the normalised \<open>t1\<close>, a call for any \<open>t2\<close> with the same
  normalised form, with the cache readable, returns \<open>v\<close>: the number of inference calls
  \<open>posts\<close> is unchanged, the only statistic that moves is \<open>cache_hits\<close>, the only log
  entry is \<open>cache_hit\<close>. Nothing is assumed about the breaker: its counters are the same
  afterwards whatever they were, for the lookup comes before the gate.
\<close>

theorem cache_hit_is_idempotent:
  assumes first: "generate_embedding H t1 \<sigma> = Some (Returned (Some v), \<sigma>1)"
    and written: "cache_lookup (hash_key H (norm_text t1 8000)) (embed_cache \<sigma>1) = Some row"
      "cache_vector row = v"
    and same: "norm_text t2 8000 = norm_text t1 8000"
    and nonempty: "norm_text t1 8000 \<noteq> []"
    and readable: "\<not> io_fault \<sigma>1"
    and rate: "0 < tokens_per_sec \<sigma>" "1 \<le> bucket_size \<sigma>"
  shows "\<exists>\<sigma>2. generate_embedding H t2 \<sigma>1 = Some (Returned (Some v), \<sigma>2)
           \<and> posts \<sigma>2 = posts \<sigma>1
           \<and> stats \<sigma>2 = (stats \<sigma>1)(''cache_hits'' := stats \<sigma>1 ''cache_hits'' + 1)
           \<and> events \<sigma>2 = events \<sigma>1 @ [(''INFO'', ''cache_hit'')]
           \<and> cb_failures \<sigma>2 = cb_failures \<sigma>1
           \<and> embed_cache \<sigma>2 = embed_cache \<sigma>1 \<and> embed_dlq \<sigma>2 = embed_dlq \<sigma>1
           \<and> ops \<sigma>2 = Suc (ops \<sigma>1)"
proof -
  have init: "cache_initialized \<sigma>1" by (rule generate_embedding_initialized[OF first])
  have fr: "client_frame \<sigma> \<sigma>1" using generate_embedding_frame[OF first] by simp
  then have rate1: "0 < tokens_per_sec \<sigma>1" "1 \<le> bucket_size \<sigma>1"
    using rate by (simp_all add: client_frame_def)
  have e: "ensure_cache_tables \<sigma>1 = (Returned (), \<sigma>1)"
    using init by (simp add: ensure_cache_tables_def)
  from acquire_returns[OF rate1] obtain \<sigma>' where a: "acquire \<sigma>1 = Some (Returned (), \<sigma>')" ..
  from acquire_paced[OF a] have p: "paced \<sigma>1 \<sigma>'" by simp
  note f = paced_fields[OF p]
  have io: "\<not> io_fault \<sigma>'" using readable f(4) f(10) by (simp add: io_fault_def)
  have lk: "cache_lookup (hash_key H (norm_text t2 8000)) (embed_cache \<sigma>') = Some row"
    using written(1) same f(2) by simp
  have ne: "norm_text t2 8000 \<noteq> []" using nonempty same by simp
  have b: "embed_body H t2 \<sigma>'
     = (Some v, log_event ''INFO'' ''cache_hit'' (stat_add ''cache_hits'' 1 (io_tick \<sigma>')))"
    using embed_body_hit[OF ne io lk] written(2) by simp
  have g: "generate_embedding H t2 \<sigma>1
     = Some (Returned (Some v), log_event ''INFO'' ''cache_hit'' (stat_add ''cache_hits'' 1 (io_tick \<sigma>')))"
    using generate_embedding_steps[OF e a, of H t2] by (simp add: b)
  show ?thesis
    by (rule exI[of _ "log_event ''INFO'' ''cache_hit'' (stat_add ''cache_hits'' 1 (io_tick \<sigma>'))"])
       (simp add: g f log_event_def stat_add_def io_tick_def)
qed

theorem cache_hit_is_idempotent_witness:
  "\<exists>\<sigma>1 \<sigma>2.
     generate_embedding id ''hello  world'' (new_engine CONFIG_DEFAULTS Both good_world 0 [])
       = Some (Returned (Some [1, 2]), \<sigma>1)
     \<and> posts \<sigma>1 = 1
     \<and> generate_embedding id '' hello world '' \<sigma>1 = Some (Returned (Some [1, 2]), \<sigma>2)
     \<and> posts \<sigma>2 = 1 \<and> stats \<sigma>2 ''cache_hits'' = 1"
proof -
  let ?\<sigma> = "new_engine CONFIG_DEFAULTS Both good_world 0 []"
  let ?\<sigma>a = "?\<sigma>\<lparr>tokens := 1, cache_initialized := True, ops := 1\<rparr>"
  have n1: "norm_text ''hello  world'' 8000 = ''hello world''"
    by (simp add: norm_text_def strip_def isspace_def slice_to_def)
  have n2: "norm_text '' hello world '' 8000 = ''hello world''"
    by (simp add: norm_text_def strip_def isspace_def slice_to_def)
  have e: "ensure_cache_tables ?\<sigma> = (Returned (), ?\<sigma>\<lparr>cache_initialized := True, ops := 1\<rparr>)"
    by (simp add: ensure_cache_tables_def new_engine_def io_fault_def io_tick_def good_world_def)
  have a: "acquire (?\<sigma>\<lparr>cache_initialized := True, ops := 1\<rparr>) = Some (Returned (), ?\<sigma>a)"
    by (subst acquire_ready) (simp_all add: refill_def new_engine_def CONFIG_DEFAULTS_def)
  obtain r \<sigma>1 where b: "embed_body id ''hello  world'' ?\<sigma>a = (r, \<sigma>1)"
    by (cases "embed_body id ''hello  world'' ?\<sigma>a")
  have r: "r = Some [1, 2]" and c: "embed_cache \<sigma>1 =
       [\<lparr>cache_key = ''hello world'', cache_vector = [1, 2], cache_model = ''nomic-embed-text'',
         cache_dims = 2, created_at = 0\<rparr>]"
    and o: "ops \<sigma>1 = 3" "env \<sigma>1 = good_world" and ps: "posts \<sigma>1 = 1"
      and st: "stats \<sigma>1 ''cache_hits'' = 0"
    using b
    by (auto simp: embed_body_def n1 norm_text_def strip_def isspace_def slice_to_def hash_key_def
        Let_def io_fault_def io_tick_def new_engine_def CONFIG_DEFAULTS_def good_world_def
        cache_lookup_def cool_if_cb_open_def post_embedding_def cache_write_def cache_insert_def
        stat_add_def now_utc_def upt_rec[of 0])
  have first: "generate_embedding id ''hello  world'' ?\<sigma> = Some (Returned (Some [1, 2]), \<sigma>1)"
    using generate_embedding_steps[OF e a, of id "''hello  world''"] b r by simp
  have lk: "cache_lookup (hash_key id (norm_text ''hello  world'' 8000)) (embed_cache \<sigma>1)
      = Some \<lparr>cache_key = ''hello world'', cache_vector = [1, 2], cache_model = ''nomic-embed-text'',
         cache_dims = 2, created_at = 0\<rparr>"
    by (simp add: c n1 hash_key_def cache_lookup_def norm_text_def strip_def isspace_def slice_to_def)
  have rd: "\<not> io_fault \<sigma>1" by (simp add: io_fault_def o good_world_def)
  have rt: "0 < tokens_per_sec ?\<sigma>" "1 \<le> bucket_size ?\<sigma>"
    by (simp_all add: new_engine_def CONFIG_DEFAULTS_def)
  from cache_hit_is_idempotent[OF first lk _ _ _ rd rt, of "'' hello world ''"]
  obtain \<sigma>2 where "generate_embedding id '' hello world '' \<sigma>1 = Some (Returned (Some [1, 2]), \<sigma>2)"
    "posts \<sigma>2 = posts \<sigma>1" "stats \<sigma>2 = (stats \<sigma>1)(''cache_hits'' := stats \<sigma>1 ''cache_hits'' + 1)"
    by (auto simp: n1 n2)
  with first ps st show ?thesis by auto
qed

section \<open>C6: text that normalises to nothing\<close>

text \<open>
  Claim C6, as the code has it. \<open>generate_embedding\<close> first makes sure the cache tables
  exist, then takes a token from the rate limiter, and only then normalises the text. For
  a text whose normalised form is empty it returns the empty sentinel \<open>[]\<close> from the state
  the pacing loop left, with the \<open>empty_text\<close> statistic one higher: no cache lookup, no
  cache or dead letter write, no inference call, no breaker or log activity. The only
  storage operation is the creation of the tables when they were not yet initialised.
\<close>

theorem empty_text_returns_after_pacing:
  assumes "norm_text text0 8000 = []"
    and "cache_initialized \<sigma> \<or> \<not> io_fault \<sigma>"
    and "0 < tokens_per_sec \<sigma>" and "1 \<le> bucket_size \<sigma>"
  shows "\<exists>\<sigma>2. acquire (snd (ensure_cache_tables \<sigma>)) = Some (Returned (), \<sigma>2)
           \<and> generate_embedding H text0 \<sigma> = Some (Returned (Some []), stat_add ''empty_text'' 1 \<sigma>2)
           \<and> posts \<sigma>2 = posts \<sigma> \<and> embed_cache \<sigma>2 = embed_cache \<sigma>
           \<and> embed_dlq \<sigma>2 = embed_dlq \<sigma>
           \<and> ops \<sigma>2 = (if cache_initialized \<sigma> then ops \<sigma> else Suc (ops \<sigma>))
           \<and> cb_failures \<sigma>2 = cb_failures \<sigma> \<and> stats \<sigma>2 = stats \<sigma> \<and> events \<sigma>2 = events \<sigma>"
proof -
  let ?\<sigma>1 = "if cache_initialized \<sigma> then \<sigma> else (io_tick \<sigma>)\<lparr>cache_initialized := True\<rparr>"
  have e: "ensure_cache_tables \<sigma> = (Returned (), ?\<sigma>1)"
    by (rule ensure_cache_tables_ok[OF assms(2)])
  have "0 < tokens_per_sec ?\<sigma>1" "1 \<le> bucket_size ?\<sigma>1"
    using assms(3,4) by (simp_all add: io_tick_def)
  from acquire_returns[OF this] obtain \<sigma>2 where a: "acquire ?\<sigma>1 = Some (Returned (), \<sigma>2)" ..
  from acquire_paced[OF a] have p: "paced ?\<sigma>1 \<sigma>2" by simp
  have g: "generate_embedding H text0 \<sigma> = Some (Returned (Some []), stat_add ''empty_text'' 1 \<sigma>2)"
    using generate_embedding_steps[OF e a, of H text0] by (simp add: embed_body_empty[OF assms(1)])
  have f: "posts \<sigma>2 = posts \<sigma>" "embed_cache \<sigma>2 = embed_cache \<sigma>" "embed_dlq \<sigma>2 = embed_dlq \<sigma>"
    "ops \<sigma>2 = (if cache_initialized \<sigma> then ops \<sigma> else Suc (ops \<sigma>))"
    "cb_failures \<sigma>2 = cb_failures \<sigma>" "stats \<sigma>2 = stats \<sigma>" "events \<sigma>2 = events \<sigma>"
    using paced_fields[OF p] by (simp_all add: io_tick_def)
  show ?thesis
    by (rule exI[of _ \<sigma>2]) (simp add: e a g f)
qed

theorem empty_text_returns_after_pacing_witness:
  "generate_embedding id ''   '' (new_engine CONFIG_DEFAULTS Both quiet_world 0 [])
     = Some (Returned (Some []),
             stat_add ''empty_text'' 1
               ((new_engine CONFIG_DEFAULTS Both quiet_world 0 [])
                  \<lparr>tokens := 1, cache_initialized := True, ops := 1\<rparr>))"
proof -
  let ?\<sigma> = "new_engine CONFIG_DEFAULTS Both quiet_world 0 []"
  have n: "norm_text ''   '' 8000 = []"
    by (simp add: norm_text_def strip_def isspace_def slice_to_def)
  have h: "cache_initialized ?\<sigma> \<or> \<not> io_fault ?\<sigma>" "0 < tokens_per_sec ?\<sigma>" "1 \<le> bucket_size ?\<sigma>"
    by (simp_all add: new_engine_def CONFIG_DEFAULTS_def io_fault_def quiet_world_def)
  from empty_text_returns_after_pacing[OF n h, of id]
  obtain \<sigma>2 where a: "acquire (snd (ensure_cache_tables ?\<sigma>)) = Some (Returned (), \<sigma>2)"
    and g: "generate_embedding id ''   '' ?\<sigma> = Some (Returned (Some []), stat_add ''empty_text'' 1 \<sigma>2)"
    by blast
  have e: "snd (ensure_cache_tables ?\<sigma>) = ?\<sigma>\<lparr>cache_initialized := True, ops := 1\<rparr>"
    by (simp add: ensure_cache_tables_def new_engine_def CONFIG_DEFAULTS_def io_fault_def
        io_tick_def quiet_world_def)
  have "acquire (?\<sigma>\<lparr>cache_initialized := True, ops := 1\<rparr>)
      = Some (Returned (), ?\<sigma>\<lparr>tokens := 1, cache_initialized := True, ops := 1\<rparr>)"
    by (subst acquire_ready) (simp_all add: refill_def new_engine_def CONFIG_DEFAULTS_def)
  with a e have "\<sigma>2 = ?\<sigma>\<lparr>tokens := 1, cache_initialized := True, ops := 1\<rparr>" by simp
  with g show ?thesis by simp
qed


text \<open>
  The claim as stated (the sentinel is returned before the rate limiter is touched) fails:
  with an empty bucket the call for a blank text sleeps four times half a second in the
  pacing loop before it returns the sentinel.
\<close>

theorem empty_text_waits_for_token:
  "generate_embedding id ''   '' ((new_engine CONFIG_DEFAULTS Both quiet_world 0 [])\<lparr>tokens := 0\<rparr>)
     = Some (Returned (Some []),
             stat_add ''empty_text'' 1
               ((new_engine CONFIG_DEFAULTS Both quiet_world 0 [])
                  \<lparr>tokens := 0, token_last := 2, clock := 2, slept := [1/2, 1/2, 1/2, 1/2],
                   cache_initialized := True, ops := 1\<rparr>))"
proof -
  let ?\<sigma> = "(new_engine CONFIG_DEFAULTS Both quiet_world 0 [])\<lparr>tokens := 0\<rparr>"
  have n: "norm_text ''   '' 8000 = []"
    by (simp add: norm_text_def strip_def isspace_def slice_to_def)
  have e: "ensure_cache_tables ?\<sigma> = (Returned (), ?\<sigma>\<lparr>cache_initialized := True, ops := 1\<rparr>)"
    by (simp add: ensure_cache_tables_def new_engine_def CONFIG_DEFAULTS_def io_fault_def
        io_tick_def quiet_world_def)
  have a: "acquire (?\<sigma>\<lparr>cache_initialized := True, ops := 1\<rparr>)
      = Some (Returned (), (new_engine CONFIG_DEFAULTS Both quiet_world 0 [])
                  \<lparr>tokens := 0, token_last := 2, clock := 2, slept := [1/2, 1/2, 1/2, 1/2],
                   cache_initialized := True, ops := 1\<rparr>)"
    apply (subst acquire_wait; simp add: refill_def new_engine_def CONFIG_DEFAULTS_def sleep_for_def)
    apply (subst acquire_wait; simp add: refill_def  sleep_for_def)
    apply (subst acquire_wait; simp add: refill_def  sleep_for_def)
    apply (subst acquire_wait; simp add: refill_def  sleep_for_def)
    apply (subst acquire_ready; simp add: refill_def)
    done
  show ?thesis
    using generate_embedding_steps[OF e a, of id "''   ''"] by (simp add: embed_body_empty[OF n])
qed


section \<open>C7: storage failures inside \<open>generate_embedding\<close>\<close>

text \<open>
  The guarded accesses. A cache read that fails is logged and the call goes on as for a
  miss; a cache write that fails is logged and the vector is returned all the same; and
  once the tables are initialised, with a positive refill rate, \<open>generate_embedding\<close>
  returns whatever storage operations fail.
\<close>

lemma cache_read_failure_is_a_miss:
  assumes "norm_text t 8000 \<noteq> []" and "io_fault \<sigma>"
  shows "embed_body H t \<sigma>
     = retry_loop (hash_key H (norm_text t 8000)) (norm_text t 8000)
         [0..<nat (rp_attempts (rp \<sigma>))]
         (cool_if_cb_open (log_event ''WARN'' ''cache_read_failed'' (io_tick \<sigma>)))"
proof -
  have "rp (cool_if_cb_open (log_event ''WARN'' ''cache_read_failed'' (io_tick \<sigma>))) = rp \<sigma>"
    by (simp add: cool_if_cb_open_def Let_def sleep_for_def log_event_def stat_add_def io_tick_def)
  with assms show ?thesis by (simp add: embed_body_def Let_def)
qed

lemma cache_write_failure_is_logged:
  assumes "parse_response (ollama (env \<sigma>) (posts \<sigma>) p) = Inr v"
    and "faults (env \<sigma>) (ops \<sigma>)"
  shows "fst (retry_loop k p (a # as) \<sigma>) = Some v
     \<and> events (snd (retry_loop k p (a # as) \<sigma>)) = events \<sigma> @ [(''WARN'', ''cache_write_failed'')]
     \<and> embed_cache (snd (retry_loop k p (a # as) \<sigma>)) = embed_cache \<sigma>"
  using assms
  by (simp add: post_embedding_def cache_write_def io_fault_def io_tick_def log_event_def
      stat_add_def)

lemma initialized_engine_returns:
  assumes "cache_initialized \<sigma>" and "0 < tokens_per_sec \<sigma>" and "1 \<le> bucket_size \<sigma>"
  shows "\<exists>r \<sigma>'. generate_embedding H t \<sigma> = Some (Returned r, \<sigma>')"
proof -
  have e: "ensure_cache_tables \<sigma> = (Returned (), \<sigma>)"
    using assms(1) by (simp add: ensure_cache_tables_def)
  from acquire_returns[OF assms(2,3)] obtain \<sigma>2 where a: "acquire \<sigma> = Some (Returned (), \<sigma>2)" ..
  from generate_embedding_steps[OF e a, of H t] show ?thesis by blast
qed

text \<open>
  Claim C7 at its failing input. The cache read, the cache write and the dead letter write
  of \<open>generate_embedding\<close> each sit in a \<open>try\<close> of their own; the call of
  \<open>_ensure_cache_tables\<close> in its first line does not. On an engine whose tables are not yet
  initialised (target \<open>qdrant\<close>: \<open>initialize\<close> creates them only for \<open>mvm\<close> and
  \<open>both\<close>) a storage failure there leaves \<open>generate_embedding\<close> as an exception.
\<close>

theorem table_creation_failure_propagates:
  "generate_embedding id ''hello'' (new_engine CONFIG_DEFAULTS Qdrant broken_store_world 0 [])
     = Some (Raised ''sqlite3.Error'',
             (new_engine CONFIG_DEFAULTS Qdrant broken_store_world 0 [])\<lparr>ops := 1\<rparr>)"
  by (simp add: generate_embedding_def ensure_cache_tables_def io_fault_def io_tick_def
      new_engine_def broken_store_world_def)

section \<open>The retry loop, one attempt at a time\<close>

text \<open>
  Names for what one failed attempt does to the state, for the delay
  \<open>min(base_ms * 2^attempt, max_ms)\<close> and for the sleep in seconds that follows a failed
  attempt, jitter included.
\<close>

definition failed_attempt :: "sys \<Rightarrow> sys" where
  "failed_attempt \<sigma> =
     (stat_add ''embedding_errors'' 1 (\<sigma>\<lparr>posts := Suc (posts \<sigma>)\<rparr>))\<lparr>cb_failures := cb_failures \<sigma> + 1\<rparr>"

definition delay_ms :: "retry_policy \<Rightarrow> nat \<Rightarrow> rat" where
  "delay_ms pol attempt = min (rp_base_ms pol * 2 ^ attempt) (rp_max_ms pol)"

definition backoff :: "sys \<Rightarrow> nat \<Rightarrow> nat \<Rightarrow> rat" where
  "backoff \<sigma> attempt draw =
     (delay_ms (rp \<sigma>) attempt + delay_ms (rp \<sigma>) attempt * (1 / 10) * rand (env \<sigma>) draw) / 1000"

definition retry_state :: "nat \<Rightarrow> sys \<Rightarrow> sys" where
  "retry_state attempt \<sigma> =
     log_event ''WARN'' ''embedding_retry''
       (sleep_for (backoff \<sigma> attempt (draws \<sigma>)) ((failed_attempt \<sigma>)\<lparr>draws := Suc (draws \<sigma>)\<rparr>))"

lemma retry_step_ok:
  assumes "parse_response (ollama (env \<sigma>) (posts \<sigma>) p) = Inr v"
  shows "retry_loop k p (a # as) \<sigma>
     = (Some v, stat_add ''embeddings_generated'' 1
                  ((cache_write k v (\<sigma>\<lparr>posts := Suc (posts \<sigma>)\<rparr>))\<lparr>cb_failures := 0\<rparr>))"
  using assms by (simp add: post_embedding_def)

lemma retry_step_again:
  assumes "parse_response (ollama (env \<sigma>) (posts \<sigma>) p) = Inl e"
    and "int a < rp_attempts (rp \<sigma>) - 1"
  shows "retry_loop k p (a # as) \<sigma> = retry_loop k p as (retry_state a \<sigma>)"
  using assms
  by (simp add: post_embedding_def Let_def retry_state_def failed_attempt_def backoff_def
      delay_ms_def stat_add_def)

lemma retry_step_final:
  assumes "parse_response (ollama (env \<sigma>) (posts \<sigma>) p) = Inl e"
    and "\<not> int a < rp_attempts (rp \<sigma>) - 1"
  shows "retry_loop k p (a # as) \<sigma>
     = (None, log_event ''ERROR'' ''embedding_failed_final'' (dlq_write k p e (failed_attempt \<sigma>)))"
  using assms
  by (simp add: post_embedding_def Let_def failed_attempt_def stat_add_def)

lemma retry_state_fields [simp]:
  "rp (retry_state a \<sigma>) = rp \<sigma>" "env (retry_state a \<sigma>) = env \<sigma>"
  "posts (retry_state a \<sigma>) = Suc (posts \<sigma>)" "draws (retry_state a \<sigma>) = Suc (draws \<sigma>)"
  "cb_failures (retry_state a \<sigma>) = cb_failures \<sigma> + 1"
  "stats (retry_state a \<sigma>) = (stats \<sigma>)(''embedding_errors'' := stats \<sigma> ''embedding_errors'' + 1)"
  "slept (retry_state a \<sigma>) = slept \<sigma> @ [backoff \<sigma> a (draws \<sigma>)]"
  "ops (retry_state a \<sigma>) = ops \<sigma>" "embed_cache (retry_state a \<sigma>) = embed_cache \<sigma>"
  "embed_dlq (retry_state a \<sigma>) = embed_dlq \<sigma>" "model (retry_state a \<sigma>) = model \<sigma>"
  by (simp_all add: retry_state_def failed_attempt_def log_event_def sleep_for_def stat_add_def)

lemma backoff_retry_state [simp]: "backoff (retry_state a \<sigma>) = backoff \<sigma>"
  by (rule ext, rule ext) (simp add: backoff_def)

lemma upt_head: "a < b \<Longrightarrow> [a..<b] = a # [Suc a..<b]"
  by (simp add: upt_conv_Cons)

lemma retry_loop_success:
  assumes "\<forall>i<j. isl (parse_response (ollama (env \<sigma>) (posts \<sigma> + i) p))"
    and "parse_response (ollama (env \<sigma>) (posts \<sigma> + j) p) = Inr v"
    and "a + j < b" and "int b = rp_attempts (rp \<sigma>)"
  shows "fst (retry_loop k p [a..<b] \<sigma>) = Some v
     \<and> posts (snd (retry_loop k p [a..<b] \<sigma>)) = posts \<sigma> + Suc j
     \<and> stats (snd (retry_loop k p [a..<b] \<sigma>)) ''embedding_errors''
         = stats \<sigma> ''embedding_errors'' + int j
     \<and> stats (snd (retry_loop k p [a..<b] \<sigma>)) ''embeddings_generated''
         = stats \<sigma> ''embeddings_generated'' + 1
     \<and> cb_failures (snd (retry_loop k p [a..<b] \<sigma>)) = 0
     \<and> slept (snd (retry_loop k p [a..<b] \<sigma>))
         = slept \<sigma> @ map (\<lambda>i. backoff \<sigma> (a + i) (draws \<sigma> + i)) [0..<j]
     \<and> embed_dlq (snd (retry_loop k p [a..<b] \<sigma>)) = embed_dlq \<sigma>
     \<and> (faults (env \<sigma>) (ops \<sigma>) \<longrightarrow>
           embed_cache (snd (retry_loop k p [a..<b] \<sigma>)) = embed_cache \<sigma>)
     \<and> (\<not> faults (env \<sigma>) (ops \<sigma>) \<longrightarrow>
           embed_cache (snd (retry_loop k p [a..<b] \<sigma>))
             = cache_insert \<lparr>cache_key = k, cache_vector = v, cache_model = model \<sigma>,
                             cache_dims = int (length v),
                             created_at = now_utc (snd (retry_loop k p [a..<b] \<sigma>))\<rparr>
                 (embed_cache \<sigma>))"
  using assms
proof (induction j arbitrary: a \<sigma>)
  case 0
  then have ab: "a < b" and ok: "parse_response (ollama (env \<sigma>) (posts \<sigma>) p) = Inr v" by simp_all
  show ?case
    unfolding upt_head[OF ab] retry_step_ok[OF ok]
    by (simp add: stat_add_def cache_write_def io_fault_def io_tick_def log_event_def now_utc_def)
next
  case (Suc j)
  from Suc.prems(1) have "isl (parse_response (ollama (env \<sigma>) (posts \<sigma>) p))"
    by (metis add.right_neutral zero_less_Suc)
  then obtain e where e: "parse_response (ollama (env \<sigma>) (posts \<sigma>) p) = Inl e"
    by (auto simp: isl_def)
  have ab: "a < b" using Suc.prems(3) by simp
  have more: "int a < rp_attempts (rp \<sigma>) - 1" using Suc.prems(3,4) by linarith
  have step: "retry_loop k p [a..<b] \<sigma> = retry_loop k p [Suc a..<b] (retry_state a \<sigma>)"
    unfolding upt_head[OF ab] by (rule retry_step_again[OF e more])
  have p1: "\<forall>i<j. isl (parse_response (ollama (env (retry_state a \<sigma>)) (posts (retry_state a \<sigma>) + i) p))"
    using Suc.prems(1) by (auto simp: less_Suc_eq_0_disj)
  have p2: "parse_response (ollama (env (retry_state a \<sigma>)) (posts (retry_state a \<sigma>) + j) p) = Inr v"
    using Suc.prems(2) by simp
  have p3: "Suc a + j < b" using Suc.prems(3) by simp
  have p4: "int b = rp_attempts (rp (retry_state a \<sigma>))" using Suc.prems(4) by simp
  have sl: "(slept \<sigma> @ [backoff \<sigma> a (draws \<sigma>)])
                @ map (\<lambda>i. backoff \<sigma> (Suc a + i) (Suc (draws \<sigma>) + i)) [0..<j]
            = slept \<sigma> @ map (\<lambda>i. backoff \<sigma> (a + i) (draws \<sigma> + i)) [0..<Suc j]"
    by (simp add: map_upt_Suc del: upt_Suc)
  from Suc.IH[OF p1 p2 p3 p4] sl show ?case
    unfolding step by simp
qed

lemma retry_loop_exhausted:
  assumes "\<forall>i<b - a. isl (parse_response (ollama (env \<sigma>) (posts \<sigma> + i) p))"
    and "a < b" and "int b = rp_attempts (rp \<sigma>)"
  shows "fst (retry_loop k p [a..<b] \<sigma>) = None
     \<and> posts (snd (retry_loop k p [a..<b] \<sigma>)) = posts \<sigma> + (b - a)
     \<and> stats (snd (retry_loop k p [a..<b] \<sigma>)) ''embedding_errors''
         = stats \<sigma> ''embedding_errors'' + int (b - a)
     \<and> stats (snd (retry_loop k p [a..<b] \<sigma>)) ''embeddings_generated''
         = stats \<sigma> ''embeddings_generated''
     \<and> cb_failures (snd (retry_loop k p [a..<b] \<sigma>)) = cb_failures \<sigma> + int (b - a)
     \<and> slept (snd (retry_loop k p [a..<b] \<sigma>))
         = slept \<sigma> @ map (\<lambda>i. backoff \<sigma> (a + i) (draws \<sigma> + i)) [0..<b - a - 1]
     \<and> embed_cache (snd (retry_loop k p [a..<b] \<sigma>)) = embed_cache \<sigma>
     \<and> (faults (env \<sigma>) (ops \<sigma>) \<longrightarrow>
           embed_dlq (snd (retry_loop k p [a..<b] \<sigma>)) = embed_dlq \<sigma>)
     \<and> (\<not> faults (env \<sigma>) (ops \<sigma>) \<longrightarrow>
           (\<exists>e. parse_response (ollama (env \<sigma>) (posts \<sigma> + (b - a - 1)) p) = Inl e
              \<and> embed_dlq (snd (retry_loop k p [a..<b] \<sigma>))
                  = dlq_upsert k p e (now_utc (snd (retry_loop k p [a..<b] \<sigma>))) (embed_dlq \<sigma>)))"
  using assms
proof (induction "b - a" arbitrary: a \<sigma>)
  case 0
  then show ?case by simp
next
  case (Suc d)
  from Suc.prems(1,2) have "isl (parse_response (ollama (env \<sigma>) (posts \<sigma>) p))"
    by (metis add.right_neutral zero_less_diff)
  then obtain e where e: "parse_response (ollama (env \<sigma>) (posts \<sigma>) p) = Inl e"
    by (auto simp: isl_def)
  have ab: "a < b" by (rule Suc.prems(2))
  show ?case
  proof (cases "Suc a = b")
    case True
    then have last: "\<not> int a < rp_attempts (rp \<sigma>) - 1" using Suc.prems(3) by linarith
    have ba: "b - a = 1" using True by simp
    show ?thesis
      unfolding upt_head[OF ab] retry_step_final[OF e last] ba
      using e
      by (simp add: failed_attempt_def stat_add_def dlq_write_def io_fault_def io_tick_def
          log_event_def now_utc_def)
  next
    case False
    then have sab: "Suc a < b" using ab by simp
    have more: "int a < rp_attempts (rp \<sigma>) - 1" using sab Suc.prems(3) by linarith
    have step: "retry_loop k p [a..<b] \<sigma> = retry_loop k p [Suc a..<b] (retry_state a \<sigma>)"
      unfolding upt_head[OF ab] by (rule retry_step_again[OF e more])
    have d: "d = b - Suc a" using Suc.hyps(2) by simp
    have p1: "\<forall>i<b - Suc a. isl (parse_response
                (ollama (env (retry_state a \<sigma>)) (posts (retry_state a \<sigma>) + i) p))"
    proof (intro allI impI)
      fix i assume "i < b - Suc a"
      then have "Suc i < b - a" by simp
      with Suc.prems(1) have "isl (parse_response (ollama (env \<sigma>) (posts \<sigma> + Suc i) p))" by blast
      then show "isl (parse_response
                (ollama (env (retry_state a \<sigma>)) (posts (retry_state a \<sigma>) + i) p))" by simp
    qed
    have p3: "int b = rp_attempts (rp (retry_state a \<sigma>))" using Suc.prems(3) by simp
    have ba: "b - a = Suc (b - Suc a)" using sab by simp
    have idx: "posts \<sigma> + (b - a - 1) = posts (retry_state a \<sigma>) + (b - Suc a - 1)"
      using sab by simp
    have sl: "(slept \<sigma> @ [backoff \<sigma> a (draws \<sigma>)])
                @ map (\<lambda>i. backoff \<sigma> (Suc a + i) (Suc (draws \<sigma>) + i)) [0..<b - Suc a - 1]
            = slept \<sigma> @ map (\<lambda>i. backoff \<sigma> (a + i) (draws \<sigma> + i)) [0..<b - a - 1]"
    proof -
      have "b - a - 1 = Suc (b - Suc a - 1)" using sab by simp
      then show ?thesis by (simp add: map_upt_Suc del: upt_Suc)
    qed
    from Suc.hyps(1)[OF d p1 sab p3] sl show ?thesis
      unfolding step idx by (simp add: ba)
  qed
qed

lemma retry_loop_posts_le: "posts (snd (retry_loop k p as \<sigma>)) \<le> posts \<sigma> + length as"
proof (induction as arbitrary: \<sigma>)
  case Nil
  show ?case by simp
next
  case (Cons a as)
  show ?case
  proof (cases "parse_response (ollama (env \<sigma>) (posts \<sigma>) p)")
    case (Inr v)
    show ?thesis unfolding retry_step_ok[OF Inr]
      by (simp add: stat_add_def cache_write_def io_tick_def log_event_def)
  next
    case (Inl e)
    show ?thesis
    proof (cases "int a < rp_attempts (rp \<sigma>) - 1")
      case True
      show ?thesis unfolding retry_step_again[OF Inl True]
        using Cons.IH[of "retry_state a \<sigma>"] by simp
    next
      case False
      show ?thesis unfolding retry_step_final[OF Inl False]
        by (simp add: failed_attempt_def stat_add_def dlq_write_def io_tick_def log_event_def)
    qed
  qed
qed

lemma backoff_bounds:
  assumes "0 \<le> rand (env \<sigma>) d" "rand (env \<sigma>) d \<le> 1" "0 \<le> delay_ms (rp \<sigma>) a"
  shows "delay_ms (rp \<sigma>) a / 1000 \<le> backoff \<sigma> a d"
    and "backoff \<sigma> a d \<le> (delay_ms (rp \<sigma>) a + delay_ms (rp \<sigma>) a / 10) / 1000"
proof -
  have 1: "0 \<le> delay_ms (rp \<sigma>) a * (1 / 10) * rand (env \<sigma>) d"
    using assms by simp
  have "delay_ms (rp \<sigma>) a * rand (env \<sigma>) d \<le> delay_ms (rp \<sigma>) a * 1"
    using assms by (intro mult_left_mono) simp_all
  then have 2: "delay_ms (rp \<sigma>) a * (1 / 10) * rand (env \<sigma>) d \<le> delay_ms (rp \<sigma>) a / 10"
    by simp
  show "delay_ms (rp \<sigma>) a / 1000 \<le> backoff \<sigma> a d"
    using 1 by (simp add: backoff_def divide_right_mono)
  show "backoff \<sigma> a d \<le> (delay_ms (rp \<sigma>) a + delay_ms (rp \<sigma>) a / 10) / 1000"
    using 2 unfolding backoff_def by (intro divide_right_mono add_left_mono) simp_all
qed


section \<open>C8: the retry loop\<close>

text \<open>A lookup in a cache table with one more row at its end.\<close>

lemma cache_lookup_append:
  "cache_lookup k (rows @ [r])
     = (case cache_lookup k rows of None \<Rightarrow> (if cache_key r = k then Some r else None)
        | Some x \<Rightarrow> Some x)"
  by (induction rows) (auto simp: cache_lookup_def)

text \<open>
  Claim C8. Entered in state \<open>\<sigma>\<close>, the loop \<open>for attempt in range(attempts)\<close> issues at
  most \<open>attempts\<close> inference calls (3 by default). A transport error and a response whose
  \<open>embedding\<close> field is missing, not a list or empty are failures. If the first \<open>j\<close>
  responses fail and the next one is valid, with \<open>j < attempts\<close>, the loop returns its
  vector after \<open>j + 1\<close> calls: the error statistic went up by \<open>j\<close>, the success statistic
  by 1, the consecutive-failure counter is 0, and the cache was written best-effort: when
  the write failed the cache is as before, and when it did not, a lookup of the key finds
  a row afterwards, the new row with the vector when the key was absent and the row that
  was there otherwise (\<^verbatim>\<open>INSERT OR IGNORE\<close>), and every other key is as before. If all \<open>attempts\<close>
  responses fail, the loop returns \<open>None\<close> with error statistic and failure counter both
  up by \<open>attempts\<close>. After each failed attempt but the last the loop sleeps
  \<open>backoff\<close> seconds: \<open>min(base_ms * 2^attempt, max_ms)\<close> milliseconds plus a jitter
  between 0 and a tenth of that, for a random draw in the unit interval.
\<close>

theorem retry_loop_contract:
  "posts (snd (retry_loop k p [0..<nat (rp_attempts (rp \<sigma>))] \<sigma>))
      \<le> posts \<sigma> + nat (rp_attempts (rp \<sigma>))
   \<and> (\<forall>j v. j < nat (rp_attempts (rp \<sigma>))
            \<and> (\<forall>i<j. isl (parse_response (ollama (env \<sigma>) (posts \<sigma> + i) p)))
            \<and> parse_response (ollama (env \<sigma>) (posts \<sigma> + j) p) = Inr v
        \<longrightarrow> fst (retry_loop k p [0..<nat (rp_attempts (rp \<sigma>))] \<sigma>) = Some v
            \<and> posts (snd (retry_loop k p [0..<nat (rp_attempts (rp \<sigma>))] \<sigma>)) = posts \<sigma> + Suc j
            \<and> stats (snd (retry_loop k p [0..<nat (rp_attempts (rp \<sigma>))] \<sigma>)) ''embedding_errors''
                = stats \<sigma> ''embedding_errors'' + int j
            \<and> stats (snd (retry_loop k p [0..<nat (rp_attempts (rp \<sigma>))] \<sigma>)) ''embeddings_generated''
                = stats \<sigma> ''embeddings_generated'' + 1
            \<and> cb_failures (snd (retry_loop k p [0..<nat (rp_attempts (rp \<sigma>))] \<sigma>)) = 0
            \<and> slept (snd (retry_loop k p [0..<nat (rp_attempts (rp \<sigma>))] \<sigma>))
                = slept \<sigma> @ map (\<lambda>i. backoff \<sigma> i (draws \<sigma> + i)) [0..<j]
            \<and> (faults (env \<sigma>) (ops \<sigma>) \<longrightarrow>
                  embed_cache (snd (retry_loop k p [0..<nat (rp_attempts (rp \<sigma>))] \<sigma>))
                    = embed_cache \<sigma>)
            \<and> (\<not> faults (env \<sigma>) (ops \<sigma>) \<longrightarrow>
                  embed_cache (snd (retry_loop k p [0..<nat (rp_attempts (rp \<sigma>))] \<sigma>))
                    = cache_insert
                        \<lparr>cache_key = k, cache_vector = v, cache_model = model \<sigma>,
                         cache_dims = int (length v),
                         created_at = now_utc (snd (retry_loop k p [0..<nat (rp_attempts (rp \<sigma>))] \<sigma>))\<rparr>
                        (embed_cache \<sigma>)
                  \<and> (\<exists>row. cache_lookup k
                               (embed_cache (snd (retry_loop k p [0..<nat (rp_attempts (rp \<sigma>))] \<sigma>)))
                             = Some row
                         \<and> cache_key row = k
                         \<and> (cache_lookup k (embed_cache \<sigma>) = None \<longrightarrow>
                               cache_vector row = v \<and> cache_model row = model \<sigma>
                               \<and> cache_dims row = int (length v))
                         \<and> (\<forall>old. cache_lookup k (embed_cache \<sigma>) = Some old \<longrightarrow> row = old))
                  \<and> (\<forall>k'. k' \<noteq> k \<longrightarrow>
                        cache_lookup k'
                          (embed_cache (snd (retry_loop k p [0..<nat (rp_attempts (rp \<sigma>))] \<sigma>)))
                          = cache_lookup k' (embed_cache \<sigma>))))
   \<and> ((\<forall>i<nat (rp_attempts (rp \<sigma>)). isl (parse_response (ollama (env \<sigma>) (posts \<sigma> + i) p)))
        \<longrightarrow> fst (retry_loop k p [0..<nat (rp_attempts (rp \<sigma>))] \<sigma>) = None
            \<and> posts (snd (retry_loop k p [0..<nat (rp_attempts (rp \<sigma>))] \<sigma>))
                = posts \<sigma> + nat (rp_attempts (rp \<sigma>))
            \<and> stats (snd (retry_loop k p [0..<nat (rp_attempts (rp \<sigma>))] \<sigma>)) ''embedding_errors''
                = stats \<sigma> ''embedding_errors'' + int (nat (rp_attempts (rp \<sigma>)))
            \<and> cb_failures (snd (retry_loop k p [0..<nat (rp_attempts (rp \<sigma>))] \<sigma>))
                = cb_failures \<sigma> + int (nat (rp_attempts (rp \<sigma>)))
            \<and> slept (snd (retry_loop k p [0..<nat (rp_attempts (rp \<sigma>))] \<sigma>))
                = slept \<sigma> @ map (\<lambda>i. backoff \<sigma> i (draws \<sigma> + i)) [0..<nat (rp_attempts (rp \<sigma>)) - 1])
   \<and> (\<forall>a d. 0 \<le> rand (env \<sigma>) d \<and> rand (env \<sigma>) d \<le> 1 \<and> 0 \<le> delay_ms (rp \<sigma>) a
        \<longrightarrow> delay_ms (rp \<sigma>) a / 1000 \<le> backoff \<sigma> a d
            \<and> backoff \<sigma> a d \<le> (delay_ms (rp \<sigma>) a + delay_ms (rp \<sigma>) a / 10) / 1000)
   \<and> (\<forall>a. delay_ms (rp \<sigma>) a = min (rp_base_ms (rp \<sigma>) * 2 ^ a) (rp_max_ms (rp \<sigma>)))
   \<and> (\<forall>e. isl (parse_response (HttpError e)))
   \<and> isl (parse_response (Payload Absent)) \<and> isl (parse_response (Payload NotAList))
   \<and> isl (parse_response (Payload (EmbList [])))
   \<and> rp_attempts (retry CONFIG_DEFAULTS) = 3"
proof -
  let ?n = "nat (rp_attempts (rp \<sigma>))"
  have A: "posts (snd (retry_loop k p [0..<?n] \<sigma>)) \<le> posts \<sigma> + ?n"
    using retry_loop_posts_le[of k p "[0..<?n]" \<sigma>] by simp
  have B: "\<And>j v. j < ?n \<Longrightarrow> \<forall>i<j. isl (parse_response (ollama (env \<sigma>) (posts \<sigma> + i) p))
            \<Longrightarrow> parse_response (ollama (env \<sigma>) (posts \<sigma> + j) p) = Inr v
            \<Longrightarrow> fst (retry_loop k p [0..<?n] \<sigma>) = Some v
            \<and> posts (snd (retry_loop k p [0..<?n] \<sigma>)) = posts \<sigma> + Suc j
            \<and> stats (snd (retry_loop k p [0..<?n] \<sigma>)) ''embedding_errors''
                = stats \<sigma> ''embedding_errors'' + int j
            \<and> stats (snd (retry_loop k p [0..<?n] \<sigma>)) ''embeddings_generated''
                = stats \<sigma> ''embeddings_generated'' + 1
            \<and> cb_failures (snd (retry_loop k p [0..<?n] \<sigma>)) = 0
            \<and> slept (snd (retry_loop k p [0..<?n] \<sigma>))
                = slept \<sigma> @ map (\<lambda>i. backoff \<sigma> i (draws \<sigma> + i)) [0..<j]
            \<and> (faults (env \<sigma>) (ops \<sigma>) \<longrightarrow>
                  embed_cache (snd (retry_loop k p [0..<?n] \<sigma>)) = embed_cache \<sigma>)
            \<and> (\<not> faults (env \<sigma>) (ops \<sigma>) \<longrightarrow>
                  embed_cache (snd (retry_loop k p [0..<?n] \<sigma>))
                    = cache_insert
                        \<lparr>cache_key = k, cache_vector = v, cache_model = model \<sigma>,
                         cache_dims = int (length v),
                         created_at = now_utc (snd (retry_loop k p [0..<?n] \<sigma>))\<rparr>
                        (embed_cache \<sigma>)
                  \<and> (\<exists>row. cache_lookup k (embed_cache (snd (retry_loop k p [0..<?n] \<sigma>)))
                             = Some row
                         \<and> cache_key row = k
                         \<and> (cache_lookup k (embed_cache \<sigma>) = None \<longrightarrow>
                               cache_vector row = v \<and> cache_model row = model \<sigma>
                               \<and> cache_dims row = int (length v))
                         \<and> (\<forall>old. cache_lookup k (embed_cache \<sigma>) = Some old \<longrightarrow> row = old))
                  \<and> (\<forall>k'. k' \<noteq> k \<longrightarrow>
                        cache_lookup k' (embed_cache (snd (retry_loop k p [0..<?n] \<sigma>)))
                          = cache_lookup k' (embed_cache \<sigma>)))"
  proof -
    fix j v
    assume j: "j < ?n" and f: "\<forall>i<j. isl (parse_response (ollama (env \<sigma>) (posts \<sigma> + i) p))"
      and ok: "parse_response (ollama (env \<sigma>) (posts \<sigma> + j) p) = Inr v"
    have n: "int ?n = rp_attempts (rp \<sigma>)" using j by simp
    from j have j0: "0 + j < ?n" by simp
    let ?\<sigma>' = "snd (retry_loop k p [0..<?n] \<sigma>)"
    let ?r = "\<lparr>cache_key = k, cache_vector = v, cache_model = model \<sigma>,
               cache_dims = int (length v), created_at = now_utc ?\<sigma>'\<rparr>"
    note R = retry_loop_success[OF f ok j0 n, of k, simplified]
    have L: "\<not> faults (env \<sigma>) (ops \<sigma>) \<longrightarrow>
               (\<exists>row. cache_lookup k (embed_cache ?\<sigma>') = Some row \<and> cache_key row = k
                   \<and> (cache_lookup k (embed_cache \<sigma>) = None \<longrightarrow>
                         cache_vector row = v \<and> cache_model row = model \<sigma>
                         \<and> cache_dims row = int (length v))
                   \<and> (\<forall>old. cache_lookup k (embed_cache \<sigma>) = Some old \<longrightarrow> row = old))
               \<and> (\<forall>k'. k' \<noteq> k \<longrightarrow>
                     cache_lookup k' (embed_cache ?\<sigma>') = cache_lookup k' (embed_cache \<sigma>))"
    proof
      assume "\<not> faults (env \<sigma>) (ops \<sigma>)"
      with R have ec: "embed_cache ?\<sigma>' = cache_insert ?r (embed_cache \<sigma>)" by simp
      have same: "cache_lookup k (embed_cache ?\<sigma>')
          = Some (case cache_lookup k (embed_cache \<sigma>) of None \<Rightarrow> ?r | Some old \<Rightarrow> old)"
        by (simp add: ec cache_insert_def cache_lookup_append split: option.split)
      have other: "\<forall>k'. k' \<noteq> k \<longrightarrow>
                     cache_lookup k' (embed_cache ?\<sigma>') = cache_lookup k' (embed_cache \<sigma>)"
        by (simp add: ec cache_insert_def cache_lookup_append split: option.split)
      have key: "\<And>old. cache_lookup k (embed_cache \<sigma>) = Some old \<Longrightarrow> cache_key old = k"
        by (auto simp: cache_lookup_def find_Some_iff)
      from same key other
      show "(\<exists>row. cache_lookup k (embed_cache ?\<sigma>') = Some row \<and> cache_key row = k
                   \<and> (cache_lookup k (embed_cache \<sigma>) = None \<longrightarrow>
                         cache_vector row = v \<and> cache_model row = model \<sigma>
                         \<and> cache_dims row = int (length v))
                   \<and> (\<forall>old. cache_lookup k (embed_cache \<sigma>) = Some old \<longrightarrow> row = old))
               \<and> (\<forall>k'. k' \<noteq> k \<longrightarrow>
                     cache_lookup k' (embed_cache ?\<sigma>') = cache_lookup k' (embed_cache \<sigma>))"
        by (cases "cache_lookup k (embed_cache \<sigma>)") auto
    qed
    from R L show "?thesis j v" by simp
  qed
  have C: "(\<forall>i<?n. isl (parse_response (ollama (env \<sigma>) (posts \<sigma> + i) p)))
        \<Longrightarrow> fst (retry_loop k p [0..<?n] \<sigma>) = None
            \<and> posts (snd (retry_loop k p [0..<?n] \<sigma>)) = posts \<sigma> + ?n
            \<and> stats (snd (retry_loop k p [0..<?n] \<sigma>)) ''embedding_errors''
                = stats \<sigma> ''embedding_errors'' + int ?n
            \<and> cb_failures (snd (retry_loop k p [0..<?n] \<sigma>)) = cb_failures \<sigma> + int ?n
            \<and> slept (snd (retry_loop k p [0..<?n] \<sigma>))
                = slept \<sigma> @ map (\<lambda>i. backoff \<sigma> i (draws \<sigma> + i)) [0..<?n - 1]"
  proof (cases "?n = 0")
    case True
    then show ?thesis by simp
  next
    case False
    assume f: "\<forall>i<?n. isl (parse_response (ollama (env \<sigma>) (posts \<sigma> + i) p))"
    from False have pos: "0 < ?n" by simp
    then have n: "int ?n = rp_attempts (rp \<sigma>)" by simp
    from f have f': "\<forall>i<?n - 0. isl (parse_response (ollama (env \<sigma>) (posts \<sigma> + i) p))" by simp
    from retry_loop_exhausted[OF f' pos n, of k] show ?thesis by simp
  qed
  have D: "\<And>a d. 0 \<le> rand (env \<sigma>) d \<Longrightarrow> rand (env \<sigma>) d \<le> 1 \<Longrightarrow> 0 \<le> delay_ms (rp \<sigma>) a
        \<Longrightarrow> delay_ms (rp \<sigma>) a / 1000 \<le> backoff \<sigma> a d
            \<and> backoff \<sigma> a d \<le> (delay_ms (rp \<sigma>) a + delay_ms (rp \<sigma>) a / 10) / 1000"
    using backoff_bounds by blast
  have E: "\<And>a. delay_ms (rp \<sigma>) a = min (rp_base_ms (rp \<sigma>) * 2 ^ a) (rp_max_ms (rp \<sigma>))"
    by (simp add: delay_ms_def)
  have F: "rp_attempts (retry CONFIG_DEFAULTS) = 3" by (simp add: CONFIG_DEFAULTS_def)
  show ?thesis
    apply (intro conjI)
             apply (rule A)
            apply (intro allI impI, elim conjE, rule B, assumption+)
           apply (intro impI, rule C, assumption)
          apply (intro allI impI, elim conjE, rule D, assumption+)
         apply (intro allI, rule E)
        apply simp
       apply simp
      apply simp
     apply simp
    apply (rule F)
    done
qed

theorem retry_loop_contract_witness:
  "fst (retry_loop ''k'' ''hi'' [0..<3] (new_engine CONFIG_DEFAULTS Both flaky_world 0 []))
      = Some [1, 2]
   \<and> posts (snd (retry_loop ''k'' ''hi'' [0..<3] (new_engine CONFIG_DEFAULTS Both flaky_world 0 []))) = 2
   \<and> stats (snd (retry_loop ''k'' ''hi'' [0..<3] (new_engine CONFIG_DEFAULTS Both flaky_world 0 [])))
        ''embedding_errors'' = 1
   \<and> cb_failures (snd (retry_loop ''k'' ''hi'' [0..<3] (new_engine CONFIG_DEFAULTS Both flaky_world 0 []))) = 0
   \<and> slept (snd (retry_loop ''k'' ''hi'' [0..<3] (new_engine CONFIG_DEFAULTS Both flaky_world 0 [])))
        = [21 / 20]
   \<and> map (\<lambda>r. (cache_key r, cache_vector r, cache_model r, cache_dims r))
        (embed_cache
           (snd (retry_loop ''k'' ''hi'' [0..<3] (new_engine CONFIG_DEFAULTS Both flaky_world 0 []))))
        = [(''k'', [1, 2], ''nomic-embed-text'', 2)]
   \<and> map_option cache_vector
        (cache_lookup ''k''
           (embed_cache
              (snd (retry_loop ''k'' ''hi'' [0..<3] (new_engine CONFIG_DEFAULTS Both flaky_world 0 [])))))
        = Some [1, 2]
   \<and> fst (retry_loop ''k'' ''hi'' [0..<3] (new_engine CONFIG_DEFAULTS Both quiet_world 0 [])) = None
   \<and> posts (snd (retry_loop ''k'' ''hi'' [0..<3] (new_engine CONFIG_DEFAULTS Both quiet_world 0 []))) = 3
   \<and> cb_failures (snd (retry_loop ''k'' ''hi'' [0..<3] (new_engine CONFIG_DEFAULTS Both quiet_world 0 []))) = 3
   \<and> slept (snd (retry_loop ''k'' ''hi'' [0..<3] (new_engine CONFIG_DEFAULTS Both quiet_world 0 [])))
        = [1, 2]"
proof -
  let ?f = "new_engine CONFIG_DEFAULTS Both flaky_world 0 []"
  let ?q = "new_engine CONFIG_DEFAULTS Both quiet_world 0 []"
  define F where "F = snd (retry_loop ''k'' ''hi'' [0..<3] ?f)"
  define Q where "Q = snd (retry_loop ''k'' ''hi'' [0..<3] ?q)"
  define rF where "rF = fst (retry_loop ''k'' ''hi'' [0..<3] ?f)"
  define rQ where "rQ = fst (retry_loop ''k'' ''hi'' [0..<3] ?q)"
  have nf: "nat (rp_attempts (rp ?f)) = 3" and nq: "nat (rp_attempts (rp ?q)) = 3"
    by (simp_all add: new_engine_def CONFIG_DEFAULTS_def)
  have f0: "\<forall>i<1. isl (parse_response (ollama (env ?f) (posts ?f + i) ''hi''))"
    by (simp add: new_engine_def flaky_world_def)
  have f1: "parse_response (ollama (env ?f) (posts ?f + 1) ''hi'') = Inr [1, 2]"
    by (simp add: new_engine_def flaky_world_def)
  have q0: "\<forall>i<3. isl (parse_response (ollama (env ?q) (posts ?q + i) ''hi''))"
    by (simp add: new_engine_def quiet_world_def)
  have bf: "map (\<lambda>i. backoff ?f i (draws ?f + i)) [0..<1] = [21 / 20]"
    by (simp add: backoff_def delay_ms_def new_engine_def CONFIG_DEFAULTS_def flaky_world_def)
  have u2: "[0..<2] = [0, Suc 0]" by code_simp
  have bq: "map (\<lambda>i. backoff ?q i (draws ?q + i)) [0..<2] = [1, 2]"
    unfolding u2
    by (simp add: backoff_def delay_ms_def new_engine_def CONFIG_DEFAULTS_def quiet_world_def)
  note cf = retry_loop_contract[of "''k''" "''hi''" ?f, unfolded nf, folded F_def rF_def]
  note cq = retry_loop_contract[of "''k''" "''hi''" ?q, unfolded nq, folded Q_def rQ_def]
  have pre: "1 < (3 :: nat)
      \<and> (\<forall>i<1. isl (parse_response (ollama (env ?f) (posts ?f + i) ''hi'')))
      \<and> parse_response (ollama (env ?f) (posts ?f + 1) ''hi'') = Inr [1, 2]"
    using f0 f1 by simp
  note sf = cf[THEN conjunct2, THEN conjunct1, rule_format, of 1 "[1, 2]", OF pre]
  note s1 = sf[THEN conjunct1]
  note s2 = sf[THEN conjunct2, THEN conjunct1]
  note s3 = sf[THEN conjunct2, THEN conjunct2, THEN conjunct1]
  note s5 = sf[THEN conjunct2, THEN conjunct2, THEN conjunct2, THEN conjunct2, THEN conjunct1]
  note s6 = sf[THEN conjunct2, THEN conjunct2, THEN conjunct2, THEN conjunct2, THEN conjunct2,
      THEN conjunct1]
  note s8 = sf[THEN conjunct2, THEN conjunct2, THEN conjunct2, THEN conjunct2, THEN conjunct2,
      THEN conjunct2, THEN conjunct2]
  have nofault: "\<not> faults (env ?f) (ops ?f)" by (simp add: new_engine_def flaky_world_def)
  note w = s8[rule_format, OF nofault]
  have c0: "embed_cache ?f = []" by (simp add: new_engine_def)
  have ec: "map (\<lambda>r. (cache_key r, cache_vector r, cache_model r, cache_dims r)) (embed_cache F)
        = [(''k'', [1, 2], ''nomic-embed-text'', 2)]"
    unfolding w[THEN conjunct1] c0
    by (simp add: cache_insert_def cache_lookup_def new_engine_def CONFIG_DEFAULTS_def)
  from w[THEN conjunct2, THEN conjunct1] obtain row where
    r: "cache_lookup ''k'' (embed_cache F) = Some row \<and> cache_key row = ''k''
        \<and> (cache_lookup ''k'' (embed_cache ?f) = None \<longrightarrow>
              cache_vector row = [1, 2] \<and> cache_model row = model ?f
              \<and> cache_dims row = int (length [1 :: rat, 2]))
        \<and> (\<forall>old. cache_lookup ''k'' (embed_cache ?f) = Some old \<longrightarrow> row = old)" ..
  note r1 = r[THEN conjunct1]
  note r2 = r[THEN conjunct2, THEN conjunct2, THEN conjunct1]
  have "cache_lookup ''k'' (embed_cache ?f) = None" by (simp add: c0 cache_lookup_def)
  with r2 have "cache_vector row = [1, 2]" by simp
  with r1 have lk: "map_option cache_vector (cache_lookup ''k'' (embed_cache F)) = Some [1, 2]"
    by simp
  have rf: "rF = Some [1, 2]"
    "posts F = 2" "stats F ''embedding_errors'' = 1" "cb_failures F = 0"
    "slept F = [21 / 20]"
    using s1 s2 s3 s5 s6 bf by (simp_all add: new_engine_def)
  note fq = cq[THEN conjunct2, THEN conjunct2, THEN conjunct1, rule_format, OF q0[rule_format]]
  have rq: "rQ = None" "posts Q = 3" "cb_failures Q = 3" "slept Q = [1, 2]"
    using fq bq by (simp_all add: new_engine_def)
  from rf ec lk rq show ?thesis unfolding F_def Q_def rF_def rQ_def by (intro conjI)
qed

section \<open>What a batch did\<close>

text \<open>
  \<open>batch_results H rows \<sigma>\<close> lists, for the rows that \<open>vectorize_batch\<close> sends through
  \<open>generate_embedding\<close> one after the other from state \<open>\<sigma>\<close>, each row with what its call
  returned: \<open>None\<close> is the permanent failure, \<open>Some []\<close> the empty sentinel, \<open>Some v\<close> a
  vector. The list ends where a call raises or does not return. \<open>healthy \<sigma>\<close>: no storage
  operation fails, the refill rate is positive and the bucket holds a token when full.
\<close>

fun batch_results :: "(string \<Rightarrow> string) \<Rightarrow> chat_row list \<Rightarrow> sys \<Rightarrow> (chat_row \<times> vector option) list" where
  "batch_results H [] \<sigma> = []"
| "batch_results H (row # rows) \<sigma> =
     (case generate_embedding H (row_text row) \<sigma> of
        Some (Returned r, \<sigma>1) \<Rightarrow> (row, r) # batch_results H rows \<sigma>1
      | _ \<Rightarrow> [])"

definition embedded :: "chat_row \<times> vector option \<Rightarrow> bool" where
  "embedded x = (snd x \<noteq> None)"

definition success_items :: "(chat_row \<times> vector option) list \<Rightarrow> vec_item list" where
  "success_items results =
     map (\<lambda>x. item_of (fst x) (row_text (fst x)) (the (snd x))) (filter embedded results)"

definition success_ids :: "(chat_row \<times> vector option) list \<Rightarrow> int list" where
  "success_ids results = map (\<lambda>x. rowid (fst x)) (filter embedded results)"

definition failed_ids :: "(chat_row \<times> vector option) list \<Rightarrow> (int \<times> string) list" where
  "failed_ids results =
     map (\<lambda>x. (rowid (fst x), bubble_id (fst x))) (filter (\<lambda>x. \<not> embedded x) results)"

definition healthy :: "sys \<Rightarrow> bool" where
  "healthy \<sigma> = ((\<forall>n. \<not> faults (env \<sigma>) n) \<and> 0 < tokens_per_sec \<sigma> \<and> 1 \<le> bucket_size \<sigma>)"

lemma healthy_frame: "client_frame \<sigma> \<sigma>' \<Longrightarrow> healthy \<sigma> \<Longrightarrow> healthy \<sigma>'"
  by (simp add: healthy_def client_frame_def)

lemma generate_embedding_healthy:
  assumes "healthy \<sigma>"
  shows "\<exists>r \<sigma>'. generate_embedding H t \<sigma> = Some (Returned r, \<sigma>')"
proof -
  from assms have nf: "cache_initialized \<sigma> \<or> \<not> io_fault \<sigma>"
    by (simp add: healthy_def io_fault_def)
  let ?\<sigma>1 = "if cache_initialized \<sigma> then \<sigma> else (io_tick \<sigma>)\<lparr>cache_initialized := True\<rparr>"
  have e: "ensure_cache_tables \<sigma> = (Returned (), ?\<sigma>1)"
    by (rule ensure_cache_tables_ok[OF nf])
  have "0 < tokens_per_sec ?\<sigma>1" "1 \<le> bucket_size ?\<sigma>1"
    using assms by (simp_all add: healthy_def io_tick_def)
  from acquire_returns[OF this] obtain \<sigma>2 where a: "acquire ?\<sigma>1 = Some (Returned (), \<sigma>2)" ..
  from generate_embedding_steps[OF e a, of H t] show ?thesis by blast
qed

lemma embed_rows_results:
  assumes "embed_rows H rows (vs, ids, fl) \<sigma> = Some (Returned (vs', ids', fl'), \<sigma>')"
  shows "map fst (batch_results H rows \<sigma>) = rows
       \<and> vs' = vs @ success_items (batch_results H rows \<sigma>)
       \<and> ids' = ids @ success_ids (batch_results H rows \<sigma>)
       \<and> fl' = fl @ failed_ids (batch_results H rows \<sigma>)
       \<and> client_frame \<sigma> \<sigma>'"
  using assms
proof (induction rows arbitrary: vs ids fl \<sigma>)
  case Nil
  then show ?case by (simp add: success_items_def success_ids_def failed_ids_def)
next
  case (Cons row rows)
  from Cons.prems obtain y where g: "generate_embedding H (row_text row) \<sigma> = Some y"
    by (cases "generate_embedding H (row_text row) \<sigma>") (auto simp: Let_def)
  obtain out \<sigma>1 where y: "y = (out, \<sigma>1)" by (cases y)
  from generate_embedding_frame[OF g] y have f1: "client_frame \<sigma> \<sigma>1" by simp
  from Cons.prems g y obtain r where out: "out = Returned r"
    by (cases out) (auto simp: Let_def)
  show ?case
  proof (cases r)
    case None
    with Cons.prems g y out
    have "embed_rows H rows (vs, ids, fl @ [(rowid row, bubble_id row)]) \<sigma>1
            = Some (Returned (vs', ids', fl'), \<sigma>')" by (simp add: Let_def)
    from Cons.IH[OF this] f1 g y out None show ?thesis
      by (auto simp: success_items_def success_ids_def failed_ids_def embedded_def
          intro: client_frame_trans)
  next
    case (Some vec)
    with Cons.prems g y out
    have "embed_rows H rows (vs @ [item_of row (row_text row) vec], ids @ [rowid row], fl) \<sigma>1
            = Some (Returned (vs', ids', fl'), \<sigma>')" by (simp add: Let_def)
    from Cons.IH[OF this] f1 g y out Some show ?thesis
      by (auto simp: success_items_def success_ids_def failed_ids_def embedded_def
          intro: client_frame_trans)
  qed
qed

lemma embed_rows_healthy:
  assumes "healthy \<sigma>"
  shows "\<exists>acc' \<sigma>'. embed_rows H rows (vs, ids, fl) \<sigma> = Some (Returned acc', \<sigma>')"
  using assms
proof (induction rows arbitrary: vs ids fl \<sigma>)
  case Nil
  show ?case by simp
next
  case (Cons row rows)
  from generate_embedding_healthy[OF Cons.prems, of H "row_text row"]
  obtain r \<sigma>1 where g: "generate_embedding H (row_text row) \<sigma> = Some (Returned r, \<sigma>1)" by blast
  from generate_embedding_frame[OF g] have "client_frame \<sigma> \<sigma>1" by simp
  from healthy_frame[OF this Cons.prems] have h1: "healthy \<sigma>1" .
  show ?case
  proof (cases r)
    case None
    with g Cons.IH[OF h1, of vs ids "fl @ [(rowid row, bubble_id row)]"]
    show ?thesis by (simp add: Let_def)
  next
    case (Some vec)
    with g Cons.IH[OF h1, of "vs @ [item_of row (row_text row) vec]" "ids @ [rowid row]" fl]
    show ?thesis by (simp add: Let_def)
  qed
qed

section \<open>Dead letter entries written by \<open>generate_embedding\<close>\<close>

lemma retry_loop_none_dlq:
  assumes "fst (retry_loop k p as \<sigma>) = None" "as \<noteq> []"
    and "rp_attempts (rp \<sigma>) - 1 \<le> int (last as)" and "\<not> faults (env \<sigma>) (ops \<sigma>)"
  shows "\<exists>e. embed_dlq (snd (retry_loop k p as \<sigma>))
            = dlq_upsert k p e (now_utc (snd (retry_loop k p as \<sigma>))) (embed_dlq \<sigma>)"
  using assms
proof (induction as arbitrary: \<sigma>)
  case Nil
  then show ?case by simp
next
  case (Cons a as)
  show ?case
  proof (cases "parse_response (ollama (env \<sigma>) (posts \<sigma>) p)")
    case (Inr v)
    from Cons.prems(1) show ?thesis unfolding retry_step_ok[OF Inr] by simp
  next
    case (Inl e)
    show ?thesis
    proof (cases "int a < rp_attempts (rp \<sigma>) - 1")
      case True
      with Cons.prems(3) have ne: "as \<noteq> []" by auto
      note step = retry_step_again[OF Inl True, of k as]
      have 1: "fst (retry_loop k p as (retry_state a \<sigma>)) = None"
        using Cons.prems(1) unfolding step .
      have 3: "rp_attempts (rp (retry_state a \<sigma>)) - 1 \<le> int (last as)"
        using Cons.prems(3) ne by simp
      have 4: "\<not> faults (env (retry_state a \<sigma>)) (ops (retry_state a \<sigma>))"
        using Cons.prems(4) by simp
      from Cons.IH[OF 1 ne 3 4] show ?thesis unfolding step by simp
    next
      case False
      show ?thesis unfolding retry_step_final[OF Inl False]
        using Cons.prems(4)
        by (auto simp: failed_attempt_def stat_add_def dlq_write_def io_fault_def io_tick_def
            log_event_def now_utc_def)
    qed
  qed
qed

lemma retry_loop_dlq_keys:
  "dlq_key ` set (embed_dlq \<sigma>) \<subseteq> dlq_key ` set (embed_dlq (snd (retry_loop k p as \<sigma>)))"
proof (induction as arbitrary: \<sigma>)
  case Nil
  show ?case by simp
next
  case (Cons a as)
  show ?case
  proof (cases "parse_response (ollama (env \<sigma>) (posts \<sigma>) p)")
    case (Inr v)
    show ?thesis unfolding retry_step_ok[OF Inr]
      by (simp add: stat_add_def cache_write_def io_tick_def log_event_def)
  next
    case (Inl e)
    show ?thesis
    proof (cases "int a < rp_attempts (rp \<sigma>) - 1")
      case True
      show ?thesis unfolding retry_step_again[OF Inl True]
        using Cons.IH[of "retry_state a \<sigma>"] by simp
    next
      case False
      have "set (map dlq_key (embed_dlq \<sigma>))
              \<subseteq> set (map dlq_key (dlq_upsert k p e (now_utc (failed_attempt \<sigma>)) (embed_dlq \<sigma>)))"
        unfolding dlq_upsert_keys by auto
      then show ?thesis unfolding retry_step_final[OF Inl False]
        by (auto simp: failed_attempt_def stat_add_def dlq_write_def io_tick_def
            log_event_def now_utc_def)
    qed
  qed
qed

lemma embed_body_dlq_keys:
  "dlq_key ` set (embed_dlq \<sigma>) \<subseteq> dlq_key ` set (embed_dlq (snd (embed_body H t \<sigma>)))"
proof -
  have a: "\<And>k p as \<tau>. embed_dlq \<tau> = embed_dlq \<sigma> \<Longrightarrow>
      dlq_key ` set (embed_dlq \<sigma>) \<subseteq> dlq_key ` set (embed_dlq (snd (retry_loop k p as \<tau>)))"
    using retry_loop_dlq_keys by metis
  have c: "\<And>\<tau>. embed_dlq (cool_if_cb_open \<tau>) = embed_dlq \<tau>"
    by (simp add: cool_if_cb_open_def Let_def sleep_for_def log_event_def stat_add_def)
  show ?thesis
    by (auto simp: embed_body_def Let_def stat_add_def log_event_def io_tick_def c
        intro!: a[THEN subsetD] split: option.split)
qed

lemma generate_embedding_dlq_keys:
  assumes "generate_embedding H t \<sigma> = Some (Returned r, \<sigma>')"
  shows "dlq_key ` set (embed_dlq \<sigma>) \<subseteq> dlq_key ` set (embed_dlq \<sigma>')"
proof -
  from generate_embedding_returned[OF assms] obtain \<sigma>1 \<sigma>2 where
    e: "ensure_cache_tables \<sigma> = (Returned (), \<sigma>1)" and a: "acquire \<sigma>1 = Some (Returned (), \<sigma>2)"
    and b: "embed_body H t \<sigma>2 = (r, \<sigma>')" by blast
  from e have "embed_dlq \<sigma>1 = embed_dlq \<sigma>"
    by (auto simp: ensure_cache_tables_def io_tick_def split: if_splits)
  with paced_fields(3)[OF acquire_paced[OF a]] have "embed_dlq \<sigma>2 = embed_dlq \<sigma>" by simp
  with embed_body_dlq_keys[of \<sigma>2 H t] b show ?thesis by simp
qed

lemma generate_embedding_failure_dlq:
  assumes g: "generate_embedding H t \<sigma> = Some (Returned None, \<sigma>')"
    and h: "healthy \<sigma>" and n: "0 < rp_attempts (rp \<sigma>)"
  shows "\<exists>e. embed_dlq \<sigma>'
            = dlq_upsert (hash_key H (norm_text t 8000)) (norm_text t 8000) e (now_utc \<sigma>') (embed_dlq \<sigma>)"
proof -
  from generate_embedding_returned[OF g] obtain \<sigma>1 \<sigma>2 where
    e: "ensure_cache_tables \<sigma> = (Returned (), \<sigma>1)" and a: "acquire \<sigma>1 = Some (Returned (), \<sigma>2)"
    and b: "embed_body H t \<sigma>2 = (None, \<sigma>')" by blast
  from e have d1: "embed_dlq \<sigma>1 = embed_dlq \<sigma>" "env \<sigma>1 = env \<sigma>" "rp \<sigma>1 = rp \<sigma>"
    by (auto simp: ensure_cache_tables_def io_tick_def split: if_splits)
  note f = paced_fields[OF acquire_paced[OF a]]
  from generate_embedding_frame[OF g] have cf: "client_frame \<sigma> \<sigma>'" by simp
  have e2: "env \<sigma>2 = env \<sigma>" using f(10) d1 by simp
  have r2: "rp \<sigma>2 = rp \<sigma>"
    using paced_client_frame[OF acquire_paced[OF a]] d1 by (simp add: client_frame_def)
  have nf: "\<And>m. \<not> faults (env \<sigma>2) m" using h e2 by (simp add: healthy_def)
  let ?k = "hash_key H (norm_text t 8000)"
  let ?\<tau> = "cool_if_cb_open (io_tick \<sigma>2)"
  let ?as = "[0..<nat (rp_attempts (rp ?\<tau>))]"
  have ct: "rp ?\<tau> = rp \<sigma>" "env ?\<tau> = env \<sigma>2" "embed_dlq ?\<tau> = embed_dlq \<sigma>2"
    using r2 by (simp_all add: cool_if_cb_open_def Let_def sleep_for_def log_event_def
        stat_add_def io_tick_def)
  from b nf have ne: "norm_text t 8000 \<noteq> []"
    by (auto simp: embed_body_def)
  from b nf ne have rl: "retry_loop ?k (norm_text t 8000) ?as ?\<tau> = (None, \<sigma>')"
    by (auto simp: embed_body_def Let_def io_fault_def split: option.splits)
  have 1: "fst (retry_loop ?k (norm_text t 8000) ?as ?\<tau>) = None" using rl by simp
  have 2: "?as \<noteq> []" using n ct by simp
  have 3: "rp_attempts (rp ?\<tau>) - 1 \<le> int (last ?as)" using n ct by simp
  have 4: "\<not> faults (env ?\<tau>) (ops ?\<tau>)" using nf ct by simp
  from retry_loop_none_dlq[OF 1 2 3 4] rl ct d1 f(3) show ?thesis by simp
qed

section \<open>A batch in a healthy environment\<close>

text \<open>
  \<open>batch_of b \<sigma>\<close> is the slice that \<open>vectorize_batch\<close> reads
  (\<open>SELECT ... WHERE processed = 0 LIMIT b\<close>), \<open>batch_run H b \<sigma>\<close> what the embed calls for
  it returned.
\<close>

definition batch_of :: "int \<Rightarrow> sys \<Rightarrow> chat_row list" where
  "batch_of b \<sigma> = fetch_unprocessed b (chat_data \<sigma>)"

definition batch_run :: "(string \<Rightarrow> string) \<Rightarrow> int \<Rightarrow> sys \<Rightarrow> (chat_row \<times> vector option) list" where
  "batch_run H b \<sigma> = batch_results H (batch_of b \<sigma>) (log_event ''INFO'' ''batch_start'' (io_tick \<sigma>))"

lemma dlq_upsert_has_key: "k \<in> dlq_key ` set (dlq_upsert k t e now rows)"
proof -
  have "k \<in> set (map dlq_key (dlq_upsert k t e now rows))"
    unfolding dlq_upsert_keys by auto
  then show ?thesis by simp
qed

lemma embed_rows_dlq:
  assumes "embed_rows H rows (vs, ids, fl) \<sigma> = Some (Returned acc', \<sigma>')"
    and "healthy \<sigma>" and "0 < rp_attempts (rp \<sigma>)"
  shows "dlq_key ` set (embed_dlq \<sigma>) \<subseteq> dlq_key ` set (embed_dlq \<sigma>')
       \<and> (\<forall>r. (r, None) \<in> set (batch_results H rows \<sigma>)
              \<longrightarrow> hash_key H (norm_text (row_text r) 8000) \<in> dlq_key ` set (embed_dlq \<sigma>'))"
  using assms
proof (induction rows arbitrary: vs ids fl \<sigma>)
  case Nil
  then show ?case by simp
next
  case (Cons row rows)
  from generate_embedding_healthy[OF Cons.prems(2), of H "row_text row"]
  obtain r \<sigma>1 where g: "generate_embedding H (row_text row) \<sigma> = Some (Returned r, \<sigma>1)" by blast
  from generate_embedding_frame[OF g] have cf: "client_frame \<sigma> \<sigma>1" by simp
  from healthy_frame[OF cf Cons.prems(2)] have h1: "healthy \<sigma>1" .
  from cf Cons.prems(3) have n1: "0 < rp_attempts (rp \<sigma>1)" by (simp add: client_frame_def)
  note mono1 = generate_embedding_dlq_keys[OF g]
  show ?case
  proof (cases r)
    case None
    with Cons.prems(1) g
    have er: "embed_rows H rows (vs, ids, fl @ [(rowid row, bubble_id row)]) \<sigma>1
            = Some (Returned acc', \<sigma>')" by (simp add: Let_def)
    note ih = Cons.IH[OF er h1 n1]
    from generate_embedding_failure_dlq[OF g[unfolded None] Cons.prems(2,3)]
    have "hash_key H (norm_text (row_text row) 8000) \<in> dlq_key ` set (embed_dlq \<sigma>1)"
      using dlq_upsert_has_key by metis
    with ih have here: "hash_key H (norm_text (row_text row) 8000) \<in> dlq_key ` set (embed_dlq \<sigma>')"
      by blast
    from ih mono1 here g None show ?thesis by auto
  next
    case (Some vec)
    with Cons.prems(1) g
    have er: "embed_rows H rows (vs @ [item_of row (row_text row) vec], ids @ [rowid row], fl) \<sigma>1
            = Some (Returned acc', \<sigma>')" by (simp add: Let_def)
    note ih = Cons.IH[OF er h1 n1]
    from ih mono1 g Some show ?thesis by auto
  qed
qed

lemma write_sinks_fields [simp]:
  "chat_data (write_sinks vs \<sigma>) = chat_data \<sigma>" "env (write_sinks vs \<sigma>) = env \<sigma>"
  "embed_dlq (write_sinks vs \<sigma>) = embed_dlq \<sigma>"
  by (simp_all add: write_sinks_def write_to_mvm_def write_to_qdrant_def Let_def log_event_def
      stat_add_def io_tick_def)

lemma mark_processed_Nil [simp]: "mark_processed [] rows = rows"
  by (simp add: mark_processed_def)

lemma mark_batch_ok:
  assumes "\<not> io_fault \<sigma>"
  shows "fst (mark_batch ids fl \<sigma>) = int (length ids)"
    and "chat_data (snd (mark_batch ids fl \<sigma>)) = mark_processed ids (chat_data \<sigma>)"
    and "embed_dlq (snd (mark_batch ids fl \<sigma>)) = embed_dlq \<sigma>"
  using assms by (simp_all add: mark_batch_def Let_def log_event_def io_tick_def)

lemma vectorize_batch_healthy:
  assumes h: "healthy \<sigma>"
  shows "\<exists>\<sigma>2 \<sigma>'. embed_rows H (batch_of b \<sigma>) ([], [], []) (log_event ''INFO'' ''batch_start'' (io_tick \<sigma>))
              = Some (Returned (success_items (batch_run H b \<sigma>), success_ids (batch_run H b \<sigma>),
                                failed_ids (batch_run H b \<sigma>)), \<sigma>2)
          \<and> map fst (batch_run H b \<sigma>) = batch_of b \<sigma>
          \<and> vectorize_batch H b \<sigma> = Some (int (length (success_ids (batch_run H b \<sigma>))), \<sigma>')
          \<and> (batch_of b \<sigma> \<noteq> [] \<longrightarrow>
                vectorize_batch H b \<sigma>
                  = Some (mark_batch (success_ids (batch_run H b \<sigma>)) (failed_ids (batch_run H b \<sigma>))
                            (write_sinks (success_items (batch_run H b \<sigma>)) \<sigma>2)))
          \<and> chat_data \<sigma>' = mark_processed (success_ids (batch_run H b \<sigma>)) (chat_data \<sigma>)
          \<and> embed_dlq \<sigma>' = embed_dlq \<sigma>2"
proof -
  let ?\<sigma>s = "log_event ''INFO'' ''batch_start'' (io_tick \<sigma>)"
  have hs: "healthy ?\<sigma>s" using h by (simp add: healthy_def log_event_def io_tick_def)
  have nf: "\<not> io_fault \<sigma>" using h by (simp add: healthy_def io_fault_def)
  from embed_rows_healthy[OF hs, of H "batch_of b \<sigma>" "[]" "[]" "[]"]
  obtain acc' \<sigma>2 where er: "embed_rows H (batch_of b \<sigma>) ([], [], []) ?\<sigma>s = Some (Returned acc', \<sigma>2)"
    by blast
  obtain vs ids fl where acc: "acc' = (vs, ids, fl)" by (metis prod_cases3)
  from embed_rows_results[OF er[unfolded acc]]
  have R: "map fst (batch_run H b \<sigma>) = batch_of b \<sigma>" "vs = success_items (batch_run H b \<sigma>)"
    "ids = success_ids (batch_run H b \<sigma>)" "fl = failed_ids (batch_run H b \<sigma>)"
    and cf: "client_frame ?\<sigma>s \<sigma>2"
    by (simp_all add: batch_run_def)
  have h2: "healthy \<sigma>2" by (rule healthy_frame[OF cf hs])
  have c2: "chat_data \<sigma>2 = chat_data \<sigma>"
    using cf by (simp add: client_frame_def log_event_def io_tick_def)
  have nf3: "\<not> io_fault (write_sinks vs \<sigma>2)" using h2 by (simp add: healthy_def io_fault_def)
  note mb = mark_batch_ok[OF nf3, of ids fl]
  show ?thesis
  proof (cases "batch_of b \<sigma> = []")
    case True
    then have "batch_run H b \<sigma> = []" by (simp add: batch_run_def)
    with True nf er acc R show ?thesis
      by (auto simp: vectorize_batch_def batch_of_def Let_def success_ids_def io_tick_def
          log_event_def)
  next
    case False
    have vb: "vectorize_batch H b \<sigma> = Some (mark_batch ids fl (write_sinks vs \<sigma>2))"
      using False nf er acc by (simp add: vectorize_batch_def batch_of_def Let_def)
    show ?thesis
      apply (rule exI[of _ \<sigma>2])
      apply (rule exI[of _ "snd (mark_batch ids fl (write_sinks vs \<sigma>2))"])
      using er acc R vb mb c2 by (simp add: prod_eq_iff)
  qed
qed

lemma batch_of_subset: "set (batch_of b \<sigma>) \<subseteq> {r \<in> set (chat_data \<sigma>). \<not> processed r}"
  by (auto simp: batch_of_def fetch_unprocessed_def limit_rows_def dest: in_set_takeD)

lemma batch_of_distinct:
  assumes "distinct (map rowid (chat_data \<sigma>))"
  shows "distinct (batch_of b \<sigma>)"
proof -
  from assms have "distinct (chat_data \<sigma>)" by (rule distinct_map[THEN iffD1, THEN conjunct1])
  then show ?thesis
    by (simp add: batch_of_def fetch_unprocessed_def limit_rows_def)
qed

lemma success_ids_iff:
  "i \<in> set (success_ids R) \<longleftrightarrow> (\<exists>r v. (r, Some v) \<in> set R \<and> rowid r = i)"
  by (force simp: success_ids_def embedded_def)

lemma success_items_iff:
  "(r, Some v) \<in> set R \<Longrightarrow> item_of r (row_text r) v \<in> set (success_items R)"
  by (force simp: success_items_def embedded_def)

lemma mark_processed_mem:
  "r \<in> set rows \<Longrightarrow> rowid r \<in> set ids \<Longrightarrow> r\<lparr>processed := True\<rparr> \<in> set (mark_processed ids rows)"
  "r \<in> set rows \<Longrightarrow> rowid r \<notin> set ids \<Longrightarrow> r \<in> set (mark_processed ids rows)"
  by (force simp: mark_processed_def)+

lemma batch_results_blank:
  assumes "(r, out) \<in> set (batch_results H rows \<sigma>)" "norm_text (row_text r) 8000 = []"
  shows "out = Some []"
  using assms
proof (induction rows arbitrary: \<sigma>)
  case Nil
  then show ?case by simp
next
  case (Cons row rows)
  show ?case
  proof (cases "generate_embedding H (row_text row) \<sigma>")
    case None
    with Cons.prems show ?thesis by simp
  next
    case (Some y)
    obtain o1 \<sigma>1 where y: "y = (o1, \<sigma>1)" by (cases y)
    show ?thesis
    proof (cases o1)
      case (Raised e)
      with Cons.prems Some y show ?thesis by simp
    next
      case (Returned res)
      with Some y have g: "generate_embedding H (row_text row) \<sigma> = Some (Returned res, \<sigma>1)" by simp
      from Cons.prems(1) g have "(r, out) = (row, res) \<or> (r, out) \<in> set (batch_results H rows \<sigma>1)"
        by simp
      then show ?thesis
      proof
        assume "(r, out) = (row, res)"
        then have eq: "r = row" "out = res" by simp_all
        from generate_embedding_returned[OF g] obtain \<sigma>a where
          "embed_body H (row_text row) \<sigma>a = (res, \<sigma>1)" by blast
        with Cons.prems(2) eq show ?thesis by (simp add: embed_body_empty)
      next
        assume "(r, out) \<in> set (batch_results H rows \<sigma>1)"
        from Cons.IH[OF this Cons.prems(2)] show ?thesis .
      qed
    qed
  qed
qed


section \<open>Two concrete batches\<close>

lemmas run_defs =
  generate_embedding_def ensure_cache_tables_def embed_body_def refill_def
  io_fault_def io_tick_def log_event_def stat_add_def sleep_for_def now_utc_def
  cool_if_cb_open_def post_embedding_def cache_write_def cache_insert_def cache_lookup_def
  dlq_write_def hash_key_def norm_text_def strip_def isspace_def slice_to_def row_text_def
  new_engine_def CONFIG_DEFAULTS_def good_world_def Let_def

lemma upt3: "[0..<3] = [0, Suc 0, Suc (Suc 0)]"
  by code_simp

lemma good_engine_healthy: "healthy (new_engine CONFIG_DEFAULTS Both good_world 0 rows)"
  by (simp add: healthy_def new_engine_def CONFIG_DEFAULTS_def good_world_def)

lemma blank_and_bad_run:
  "batch_run id 10 (new_engine CONFIG_DEFAULTS Both good_world 0 [blank_row, bad_row])
     = [(blank_row, Some []), (bad_row, None)]"
  by (simp add: batch_run_def batch_of_def fetch_unprocessed_def limit_rows_def run_defs
      acquire_ready blank_row_def bad_row_def upt3)

lemma hello_and_bad_run:
  "batch_run id 10 (new_engine CONFIG_DEFAULTS Both good_world 0 [hello_row, bad_row])
     = [(hello_row, Some [1, 2]), (bad_row, None)]"
  by (simp add: batch_run_def batch_of_def fetch_unprocessed_def limit_rows_def run_defs
      acquire_ready hello_row_def bad_row_def upt3)

section \<open>C4: dead letter entries of repeated failures\<close>

text \<open>
  A call whose endpoint rejects every attempt, for a text that is not in the cache,
  returns the permanent failure and leaves the cache as it was.
\<close>

lemma generate_embedding_permanent_failure:
  assumes h: "healthy \<sigma>" and n: "0 < rp_attempts (rp \<sigma>)"
    and bad: "\<forall>m. isl (parse_response (ollama (env \<sigma>) m (norm_text t 8000)))"
    and miss: "cache_lookup (hash_key H (norm_text t 8000)) (embed_cache \<sigma>) = None"
    and ne: "norm_text t 8000 \<noteq> []"
  shows "\<exists>\<sigma>'. generate_embedding H t \<sigma> = Some (Returned None, \<sigma>')
            \<and> embed_cache \<sigma>' = embed_cache \<sigma>"
proof -
  from generate_embedding_healthy[OF h, of H t] obtain r \<sigma>' where
    g: "generate_embedding H t \<sigma> = Some (Returned r, \<sigma>')" by blast
  from generate_embedding_returned[OF g] obtain \<sigma>1 \<sigma>2 where
    e: "ensure_cache_tables \<sigma> = (Returned (), \<sigma>1)" and a: "acquire \<sigma>1 = Some (Returned (), \<sigma>2)"
    and b: "embed_body H t \<sigma>2 = (r, \<sigma>')" by blast
  from e have d1: "embed_cache \<sigma>1 = embed_cache \<sigma>" "env \<sigma>1 = env \<sigma>" "rp \<sigma>1 = rp \<sigma>"
    by (auto simp: ensure_cache_tables_def io_tick_def split: if_splits)
  note f = paced_fields[OF acquire_paced[OF a]]
  have e2: "env \<sigma>2 = env \<sigma>" using f(10) d1 by simp
  have r2: "rp \<sigma>2 = rp \<sigma>"
    using paced_client_frame[OF acquire_paced[OF a]] d1 by (simp add: client_frame_def)
  have c2: "embed_cache \<sigma>2 = embed_cache \<sigma>" using f d1 by simp
  have nf: "\<And>m. \<not> faults (env \<sigma>2) m" using h e2 by (simp add: healthy_def)
  let ?k = "hash_key H (norm_text t 8000)"
  let ?\<tau> = "cool_if_cb_open (io_tick \<sigma>2)"
  let ?b = "nat (rp_attempts (rp ?\<tau>))"
  have ct: "rp ?\<tau> = rp \<sigma>" "env ?\<tau> = env \<sigma>2" "embed_cache ?\<tau> = embed_cache \<sigma>2"
    using r2 by (simp_all add: cool_if_cb_open_def Let_def sleep_for_def log_event_def
        stat_add_def io_tick_def)
  from b nf ne miss c2 have rl: "retry_loop ?k (norm_text t 8000) [0..<?b] ?\<tau> = (r, \<sigma>')"
    by (auto simp: embed_body_def Let_def io_fault_def split: option.splits)
  have 1: "\<forall>i<?b - 0. isl (parse_response (ollama (env ?\<tau>) (posts ?\<tau> + i) (norm_text t 8000)))"
    using bad ct e2 by simp
  have 2: "0 < ?b" using n ct by simp
  have 3: "int ?b = rp_attempts (rp ?\<tau>)" using n ct by simp
  from retry_loop_exhausted[OF 1 2 3, of ?k] rl ct c2
  have "r = None" "embed_cache \<sigma>' = embed_cache \<sigma>" by simp_all
  with g show ?thesis by simp
qed

text \<open>
  Claim C4. The statement that \<open>generate_embedding\<close> runs on its final failure,
  \<^verbatim>\<open>INSERT INTO embed_dlq(...) VALUES(?,?,?,1,datetime('now')) ON CONFLICT(key) DO UPDATE ...\<close>,
  is \<open>dlq_upsert\<close>. For a key that is absent it appends an entry with \<open>attempts = 1\<close>; for
  a key that is present it adds 1 to \<open>attempts\<close> and overwrites \<open>last_error\<close> and
  \<open>last_attempt_at\<close> of that entry, leaving its text and every other entry as they are.
  Keys stay distinct, so there is at most one entry per key. While no storage operation
  fails, a call of \<open>generate_embedding\<close> that returns the permanent failure performs
  exactly this upsert under the content hash of the normalized text, and two such calls
  in a row for a text whose key was absent leave exactly one entry for it, with
  \<open>attempts = 2\<close>.
\<close>

theorem dlq_upsert_semantics:
  "(k \<notin> dlq_key ` set rows \<longrightarrow>
      dlq_upsert k t e now rows
        = rows @ [\<lparr>dlq_key = k, dlq_text = t, last_error = e, attempts = 1,
                   last_attempt_at = now\<rparr>])
   \<and> (distinct (map dlq_key rows) \<and> k \<in> dlq_key ` set rows \<longrightarrow>
      dlq_upsert k t e now rows
        = map (\<lambda>r. if dlq_key r = k
                   then r\<lparr>last_error := e, attempts := attempts r + 1, last_attempt_at := now\<rparr>
                   else r) rows)
   \<and> (distinct (map dlq_key rows) \<longrightarrow> distinct (map dlq_key (dlq_upsert k t e now rows)))
   \<and> (healthy \<sigma> \<and> 0 < rp_attempts (rp \<sigma>)
        \<and> generate_embedding H s \<sigma> = Some (Returned None, \<sigma>') \<longrightarrow>
      (\<exists>err. embed_dlq \<sigma>'
         = dlq_upsert (hash_key H (norm_text s 8000)) (norm_text s 8000) err
             (now_utc \<sigma>') (embed_dlq \<sigma>)))
   \<and> (healthy \<sigma> \<and> 0 < rp_attempts (rp \<sigma>)
        \<and> generate_embedding H s \<sigma> = Some (Returned None, \<sigma>')
        \<and> generate_embedding H s \<sigma>' = Some (Returned None, \<sigma>'')
        \<and> hash_key H (norm_text s 8000) \<notin> dlq_key ` set (embed_dlq \<sigma>) \<longrightarrow>
      (\<exists>err. filter (\<lambda>r. dlq_key r = hash_key H (norm_text s 8000)) (embed_dlq \<sigma>'')
         = [\<lparr>dlq_key = hash_key H (norm_text s 8000), dlq_text = norm_text s 8000,
             last_error = err, attempts = 2, last_attempt_at = now_utc \<sigma>''\<rparr>]))"
proof -
  have A: "k \<notin> dlq_key ` set rows \<longrightarrow>
      dlq_upsert k t e now rows
        = rows @ [\<lparr>dlq_key = k, dlq_text = t, last_error = e, attempts = 1,
                   last_attempt_at = now\<rparr>]"
    using dlq_upsert_absent[of k rows t e now] by simp
  have B: "distinct (map dlq_key rows) \<and> k \<in> dlq_key ` set rows \<longrightarrow>
      dlq_upsert k t e now rows
        = map (\<lambda>r. if dlq_key r = k
                   then r\<lparr>last_error := e, attempts := attempts r + 1, last_attempt_at := now\<rparr>
                   else r) rows"
    using dlq_upsert_present[of rows k t e now] by simp
  have C: "distinct (map dlq_key rows) \<longrightarrow> distinct (map dlq_key (dlq_upsert k t e now rows))"
    by (simp add: dlq_upsert_keys)
  have D: "healthy \<sigma> \<and> 0 < rp_attempts (rp \<sigma>)
        \<and> generate_embedding H s \<sigma> = Some (Returned None, \<sigma>') \<longrightarrow>
      (\<exists>err. embed_dlq \<sigma>'
         = dlq_upsert (hash_key H (norm_text s 8000)) (norm_text s 8000) err
             (now_utc \<sigma>') (embed_dlq \<sigma>))"
    using generate_embedding_failure_dlq[of H s \<sigma> \<sigma>'] by blast
  have E: "healthy \<sigma> \<and> 0 < rp_attempts (rp \<sigma>)
        \<and> generate_embedding H s \<sigma> = Some (Returned None, \<sigma>')
        \<and> generate_embedding H s \<sigma>' = Some (Returned None, \<sigma>'')
        \<and> hash_key H (norm_text s 8000) \<notin> dlq_key ` set (embed_dlq \<sigma>) \<longrightarrow>
      (\<exists>err. filter (\<lambda>r. dlq_key r = hash_key H (norm_text s 8000)) (embed_dlq \<sigma>'')
         = [\<lparr>dlq_key = hash_key H (norm_text s 8000), dlq_text = norm_text s 8000,
             last_error = err, attempts = 2, last_attempt_at = now_utc \<sigma>''\<rparr>])"
  proof (intro impI, elim conjE)
    assume h: "healthy \<sigma>" and n: "0 < rp_attempts (rp \<sigma>)"
      and g1: "generate_embedding H s \<sigma> = Some (Returned None, \<sigma>')"
      and g2: "generate_embedding H s \<sigma>' = Some (Returned None, \<sigma>'')"
      and fresh: "hash_key H (norm_text s 8000) \<notin> dlq_key ` set (embed_dlq \<sigma>)"
    from generate_embedding_frame[OF g1] have cf: "client_frame \<sigma> \<sigma>'" by simp
    then have h1: "healthy \<sigma>'" using h by (rule healthy_frame)
    from cf n have n1: "0 < rp_attempts (rp \<sigma>')" by (simp add: client_frame_def)
    from generate_embedding_failure_dlq[OF g1 h n] obtain e1 where
      d1: "embed_dlq \<sigma>' = dlq_upsert (hash_key H (norm_text s 8000)) (norm_text s 8000)
             e1 (now_utc \<sigma>') (embed_dlq \<sigma>)" ..
    from generate_embedding_failure_dlq[OF g2 h1 n1] obtain e2 where
      d2: "embed_dlq \<sigma>'' = dlq_upsert (hash_key H (norm_text s 8000)) (norm_text s 8000)
             e2 (now_utc \<sigma>'') (embed_dlq \<sigma>')" ..
    show "\<exists>err. filter (\<lambda>r. dlq_key r = hash_key H (norm_text s 8000)) (embed_dlq \<sigma>'')
         = [\<lparr>dlq_key = hash_key H (norm_text s 8000), dlq_text = norm_text s 8000,
             last_error = err, attempts = 2, last_attempt_at = now_utc \<sigma>''\<rparr>]"
      unfolding d2 d1 using dlq_upsert_twice[OF fresh] by blast
  qed
  from A B C D E show ?thesis by (intro conjI)
qed


theorem dlq_upsert_semantics_witness:
  "dlq_upsert ''k1'' ''some text'' ''timeout'' 7 []
     = [\<lparr>dlq_key = ''k1'', dlq_text = ''some text'', last_error = ''timeout'', attempts = 1,
         last_attempt_at = 7\<rparr>]
   \<and> dlq_upsert ''k1'' ''some text'' ''500'' 9
        [\<lparr>dlq_key = ''k0'', dlq_text = ''other'', last_error = ''x'', attempts = 4,
          last_attempt_at = 1\<rparr>,
         \<lparr>dlq_key = ''k1'', dlq_text = ''some text'', last_error = ''timeout'', attempts = 1,
          last_attempt_at = 7\<rparr>]
     = [\<lparr>dlq_key = ''k0'', dlq_text = ''other'', last_error = ''x'', attempts = 4,
          last_attempt_at = 1\<rparr>,
        \<lparr>dlq_key = ''k1'', dlq_text = ''some text'', last_error = ''500'', attempts = 2,
          last_attempt_at = 9\<rparr>]
   \<and> (\<exists>\<sigma>' \<sigma>''.
        generate_embedding id ''bad'' (new_engine CONFIG_DEFAULTS Both good_world 0 [])
          = Some (Returned None, \<sigma>')
      \<and> generate_embedding id ''bad'' \<sigma>' = Some (Returned None, \<sigma>'')
      \<and> map (\<lambda>r. (dlq_key r, dlq_text r, attempts r)) (embed_dlq \<sigma>') = [(''bad'', ''bad'', 1)]
      \<and> map (\<lambda>r. (dlq_key r, dlq_text r, attempts r))
           (filter (\<lambda>r. dlq_key r = ''bad'') (embed_dlq \<sigma>'')) = [(''bad'', ''bad'', 2)])"
proof -
  let ?\<sigma> = "new_engine CONFIG_DEFAULTS Both good_world 0 []"
  have nt: "norm_text ''bad'' 8000 = ''bad''"
    by (simp add: norm_text_def strip_def isspace_def slice_to_def)
  have k: "hash_key id ''bad'' = ''bad''"
    by (simp add: hash_key_def nt)
  have n: "0 < rp_attempts (rp ?\<sigma>)" by (simp add: new_engine_def CONFIG_DEFAULTS_def)
  have bad: "\<forall>m. isl (parse_response (ollama (env ?\<sigma>) m (norm_text ''bad'' 8000)))"
    by (simp add: nt new_engine_def good_world_def)
  have miss: "cache_lookup (hash_key id (norm_text ''bad'' 8000)) (embed_cache ?\<sigma>) = None"
    by (simp add: cache_lookup_def new_engine_def)
  from generate_embedding_permanent_failure[OF good_engine_healthy n bad miss]
  obtain \<sigma>' where g1: "generate_embedding id ''bad'' ?\<sigma> = Some (Returned None, \<sigma>')"
    and c1: "embed_cache \<sigma>' = embed_cache ?\<sigma>" by (auto simp: nt)
  from generate_embedding_frame[OF g1] have cf: "client_frame ?\<sigma> \<sigma>'" by simp
  then have h1: "healthy \<sigma>'" using good_engine_healthy by (rule healthy_frame)
  from cf n have n1: "0 < rp_attempts (rp \<sigma>')" by (simp add: client_frame_def)
  from cf have e1: "env \<sigma>' = env ?\<sigma>" by (simp add: client_frame_def)
  have bad1: "\<forall>m. isl (parse_response (ollama (env \<sigma>') m (norm_text ''bad'' 8000)))"
    by (simp add: nt e1 new_engine_def good_world_def)
  have miss1: "cache_lookup (hash_key id (norm_text ''bad'' 8000)) (embed_cache \<sigma>') = None"
    by (simp add: c1 cache_lookup_def new_engine_def)
  from generate_embedding_permanent_failure[OF h1 n1 bad1 miss1]
  obtain \<sigma>'' where g2: "generate_embedding id ''bad'' \<sigma>' = Some (Returned None, \<sigma>'')"
    by (auto simp: nt)
  have fresh: "hash_key id (norm_text ''bad'' 8000) \<notin> dlq_key ` set (embed_dlq ?\<sigma>)"
    by (simp add: new_engine_def)
  note T = dlq_upsert_semantics[where k = "''k1''" and t = "''some text''" and \<sigma> = ?\<sigma>
      and H = id and s = "''bad''" and \<sigma>' = \<sigma>' and \<sigma>'' = \<sigma>'']
  from T[where rows = "[]" and e = "''timeout''" and now = 7]
  have A: "dlq_upsert ''k1'' ''some text'' ''timeout'' 7 []
     = [\<lparr>dlq_key = ''k1'', dlq_text = ''some text'', last_error = ''timeout'', attempts = 1,
         last_attempt_at = 7\<rparr>]" by simp
  from T[where rows = "[\<lparr>dlq_key = ''k0'', dlq_text = ''other'', last_error = ''x'', attempts = 4,
          last_attempt_at = 1\<rparr>,
         \<lparr>dlq_key = ''k1'', dlq_text = ''some text'', last_error = ''timeout'', attempts = 1,
          last_attempt_at = 7\<rparr>]" and e = "''500''" and now = 9]
  have B: "dlq_upsert ''k1'' ''some text'' ''500'' 9
        [\<lparr>dlq_key = ''k0'', dlq_text = ''other'', last_error = ''x'', attempts = 4,
          last_attempt_at = 1\<rparr>,
         \<lparr>dlq_key = ''k1'', dlq_text = ''some text'', last_error = ''timeout'', attempts = 1,
          last_attempt_at = 7\<rparr>]
     = [\<lparr>dlq_key = ''k0'', dlq_text = ''other'', last_error = ''x'', attempts = 4,
          last_attempt_at = 1\<rparr>,
        \<lparr>dlq_key = ''k1'', dlq_text = ''some text'', last_error = ''500'', attempts = 2,
          last_attempt_at = 9\<rparr>]" by simp
  from T[where rows = "[]"] good_engine_healthy[of "[]"] n g1
  have "\<exists>err. embed_dlq \<sigma>' = dlq_upsert ''bad'' ''bad'' err (now_utc \<sigma>') (embed_dlq ?\<sigma>)"
    by (simp add: nt k)
  then have D: "map (\<lambda>r. (dlq_key r, dlq_text r, attempts r)) (embed_dlq \<sigma>') = [(''bad'', ''bad'', 1)]"
    by (auto simp: new_engine_def)
  from T[where rows = "[]"] good_engine_healthy[of "[]"] n g1 g2 fresh
  have "\<exists>err. filter (\<lambda>r. dlq_key r = ''bad'') (embed_dlq \<sigma>'')
         = [\<lparr>dlq_key = ''bad'', dlq_text = ''bad'', last_error = err, attempts = 2,
             last_attempt_at = now_utc \<sigma>''\<rparr>]"
    by (simp add: nt k)
  then have E: "map (\<lambda>r. (dlq_key r, dlq_text r, attempts r))
           (filter (\<lambda>r. dlq_key r = ''bad'') (embed_dlq \<sigma>'')) = [(''bad'', ''bad'', 2)]"
    by auto
  show ?thesis
  proof (intro conjI exI)
    show "generate_embedding id ''bad'' ?\<sigma> = Some (Returned None, \<sigma>')" by (rule g1)
    show "generate_embedding id ''bad'' \<sigma>' = Some (Returned None, \<sigma>'')" by (rule g2)
  qed (rule A B D E)+
qed

section \<open>C1: the partial-failure contract of a batch\<close>

text \<open>
  Claim C1, as the code has it. In a healthy environment (no storage operation fails, the
  pacing loop can return), with distinct row identifiers and at least one retry attempt
  configured, \<open>vectorize_batch\<close> returns, every item of the slice had its embed call, and
  the rows whose identifiers are marked processed are exactly the rows of the slice whose
  embed call did not return \<open>None\<close>: those that returned a vector and those that returned
  the empty sentinel \<open>[]\<close>. The count it returns is their number. Every item whose embed
  call returned \<open>None\<close> is still in the queue, unprocessed, and the dead letter table holds
  an entry under the key of its text. An embed call that returns \<open>None\<close> while the table
  has no entry for the key appends the entry for the normalised text with \<open>attempts = 1\<close>.
\<close>

theorem partial_failure_contract:
  assumes h: "healthy \<sigma>" and d: "distinct (map rowid (chat_data \<sigma>))"
    and n: "0 < rp_attempts (rp \<sigma>)"
  shows "\<exists>\<sigma>'. vectorize_batch H b \<sigma> = Some (int (length (success_ids (batch_run H b \<sigma>))), \<sigma>')
     \<and> map fst (batch_run H b \<sigma>) = batch_of b \<sigma>
     \<and> chat_data \<sigma>' = mark_processed (success_ids (batch_run H b \<sigma>)) (chat_data \<sigma>)
     \<and> (\<forall>r \<in> set (chat_data \<sigma>).
           rowid r \<in> set (success_ids (batch_run H b \<sigma>))
             \<longleftrightarrow> (\<exists>v. (r, Some v) \<in> set (batch_run H b \<sigma>)))
     \<and> (\<forall>r. (r, None) \<in> set (batch_run H b \<sigma>)
           \<longrightarrow> r \<in> set (chat_data \<sigma>') \<and> \<not> processed r
               \<and> hash_key H (norm_text (row_text r) 8000) \<in> dlq_key ` set (embed_dlq \<sigma>'))
     \<and> (\<forall>t \<tau> \<tau>'. healthy \<tau> \<and> 0 < rp_attempts (rp \<tau>)
             \<and> generate_embedding H t \<tau> = Some (Returned None, \<tau>')
             \<and> hash_key H (norm_text t 8000) \<notin> dlq_key ` set (embed_dlq \<tau>)
           \<longrightarrow> (\<exists>e. embed_dlq \<tau>'
                      = embed_dlq \<tau> @ [\<lparr>dlq_key = hash_key H (norm_text t 8000),
                                        dlq_text = norm_text t 8000, last_error = e,
                                        attempts = 1, last_attempt_at = now_utc \<tau>'\<rparr>]))"
proof -
  let ?R = "batch_run H b \<sigma>"
  let ?\<sigma>s = "log_event ''INFO'' ''batch_start'' (io_tick \<sigma>)"
  from vectorize_batch_healthy[OF h, of H b] obtain \<sigma>2 \<sigma>' where
    er: "embed_rows H (batch_of b \<sigma>) ([], [], []) ?\<sigma>s
              = Some (Returned (success_items ?R, success_ids ?R, failed_ids ?R), \<sigma>2)"
    and mf: "map fst ?R = batch_of b \<sigma>"
    and vb: "vectorize_batch H b \<sigma> = Some (int (length (success_ids ?R)), \<sigma>')"
    and cd: "chat_data \<sigma>' = mark_processed (success_ids ?R) (chat_data \<sigma>)"
    and dq: "embed_dlq \<sigma>' = embed_dlq \<sigma>2" by blast
  have hs: "healthy ?\<sigma>s" using h by (simp add: healthy_def log_event_def io_tick_def)
  have ns: "0 < rp_attempts (rp ?\<sigma>s)" using n by (simp add: log_event_def io_tick_def)
  have dR: "distinct (map fst ?R)" unfolding mf by (rule batch_of_distinct[OF d])
  have inb: "\<And>r out. (r, out) \<in> set ?R \<Longrightarrow> r \<in> set (chat_data \<sigma>) \<and> \<not> processed r"
  proof -
    fix r out assume "(r, out) \<in> set ?R"
    then have "r \<in> set (map fst ?R)" by force
    with mf batch_of_subset[of b \<sigma>] show "r \<in> set (chat_data \<sigma>) \<and> \<not> processed r" by auto
  qed
  have P2: "\<forall>r \<in> set (chat_data \<sigma>).
           rowid r \<in> set (success_ids ?R) \<longleftrightarrow> (\<exists>v. (r, Some v) \<in> set ?R)"
  proof (intro ballI iffI)
    fix r assume r: "r \<in> set (chat_data \<sigma>)" and "rowid r \<in> set (success_ids ?R)"
    then obtain r' v where r': "(r', Some v) \<in> set ?R" "rowid r' = rowid r"
      by (auto simp: success_ids_iff)
    from inb[OF r'(1)] have "r' \<in> set (chat_data \<sigma>)" by simp
    with r r'(2) d have "r' = r" by (meson distinct_map inj_onD)
    with r'(1) show "\<exists>v. (r, Some v) \<in> set ?R" by blast
  next
    fix r assume "\<exists>v. (r, Some v) \<in> set ?R"
    then show "rowid r \<in> set (success_ids ?R)" by (auto simp: success_ids_iff)
  qed
  have P3: "\<forall>r. (r, None) \<in> set ?R
           \<longrightarrow> r \<in> set (chat_data \<sigma>') \<and> \<not> processed r
               \<and> hash_key H (norm_text (row_text r) 8000) \<in> dlq_key ` set (embed_dlq \<sigma>')"
  proof (intro allI impI)
    fix r assume f: "(r, None) \<in> set ?R"
    from inb[OF f] have r: "r \<in> set (chat_data \<sigma>)" and np: "\<not> processed r" by simp_all
    have "rowid r \<notin> set (success_ids ?R)"
    proof
      assume "rowid r \<in> set (success_ids ?R)"
      with P2 r obtain v where "(r, Some v) \<in> set ?R" by blast
      with f dR have "None = Some v" by (meson eq_key_imp_eq_value)
      then show False by simp
    qed
    with r have "r \<in> set (chat_data \<sigma>')" unfolding cd by (rule mark_processed_mem(2))
    moreover from embed_rows_dlq[OF er hs ns] f
    have "hash_key H (norm_text (row_text r) 8000) \<in> dlq_key ` set (embed_dlq \<sigma>')"
      unfolding dq by (simp add: batch_run_def)
    ultimately show "r \<in> set (chat_data \<sigma>') \<and> \<not> processed r
               \<and> hash_key H (norm_text (row_text r) 8000) \<in> dlq_key ` set (embed_dlq \<sigma>')"
      using np by simp
  qed
  have P4: "\<forall>t \<tau> \<tau>'. healthy \<tau> \<and> 0 < rp_attempts (rp \<tau>)
             \<and> generate_embedding H t \<tau> = Some (Returned None, \<tau>')
             \<and> hash_key H (norm_text t 8000) \<notin> dlq_key ` set (embed_dlq \<tau>)
           \<longrightarrow> (\<exists>e. embed_dlq \<tau>'
                      = embed_dlq \<tau> @ [\<lparr>dlq_key = hash_key H (norm_text t 8000),
                                        dlq_text = norm_text t 8000, last_error = e,
                                        attempts = 1, last_attempt_at = now_utc \<tau>'\<rparr>])"
  proof (intro allI impI)
    fix t \<tau> \<tau>'
    assume a: "healthy \<tau> \<and> 0 < rp_attempts (rp \<tau>)
             \<and> generate_embedding H t \<tau> = Some (Returned None, \<tau>')
             \<and> hash_key H (norm_text t 8000) \<notin> dlq_key ` set (embed_dlq \<tau>)"
    then have g: "generate_embedding H t \<tau> = Some (Returned None, \<tau>')" and ht: "healthy \<tau>"
      and nt: "0 < rp_attempts (rp \<tau>)"
      and ab: "hash_key H (norm_text t 8000) \<notin> dlq_key ` set (embed_dlq \<tau>)" by simp_all
    from generate_embedding_failure_dlq[OF g ht nt] obtain e where
      "embed_dlq \<tau>' = dlq_upsert (hash_key H (norm_text t 8000)) (norm_text t 8000) e
                        (now_utc \<tau>') (embed_dlq \<tau>)" ..
    with dlq_upsert_absent[OF ab] show "\<exists>e. embed_dlq \<tau>'
                      = embed_dlq \<tau> @ [\<lparr>dlq_key = hash_key H (norm_text t 8000),
                                        dlq_text = norm_text t 8000, last_error = e,
                                        attempts = 1, last_attempt_at = now_utc \<tau>'\<rparr>]"
      by auto
  qed
  from vb mf cd P2 P3 P4 show ?thesis by blast
qed


theorem partial_failure_contract_witness:
  "\<exists>\<sigma>'. vectorize_batch id 10 (new_engine CONFIG_DEFAULTS Both good_world 0 [hello_row, bad_row])
           = Some (1, \<sigma>')
     \<and> chat_data \<sigma>' = [hello_row\<lparr>processed := True\<rparr>, bad_row]
     \<and> ''bad'' \<in> dlq_key ` set (embed_dlq \<sigma>')"
proof -
  let ?\<sigma> = "new_engine CONFIG_DEFAULTS Both good_world 0 [hello_row, bad_row]"
  have d: "distinct (map rowid (chat_data ?\<sigma>))"
    by (simp add: new_engine_def hello_row_def bad_row_def)
  have n: "0 < rp_attempts (rp ?\<sigma>)" by (simp add: new_engine_def CONFIG_DEFAULTS_def)
  from partial_failure_contract[OF good_engine_healthy d n, of id 10]
  obtain \<sigma>' where
    vb: "vectorize_batch id 10 ?\<sigma> = Some (int (length (success_ids (batch_run id 10 ?\<sigma>))), \<sigma>')"
    and cd: "chat_data \<sigma>' = mark_processed (success_ids (batch_run id 10 ?\<sigma>)) (chat_data ?\<sigma>)"
    and fl: "\<forall>r. (r, None) \<in> set (batch_run id 10 ?\<sigma>)
           \<longrightarrow> r \<in> set (chat_data \<sigma>') \<and> \<not> processed r
               \<and> hash_key id (norm_text (row_text r) 8000) \<in> dlq_key ` set (embed_dlq \<sigma>')"
    by blast
  have ids: "success_ids (batch_run id 10 ?\<sigma>) = [3]"
    unfolding hello_and_bad_run by (simp add: success_ids_def embedded_def hello_row_def)
  have k: "hash_key id (norm_text (row_text bad_row) 8000) = ''bad''"
    by (simp add: hash_key_def norm_text_def strip_def isspace_def slice_to_def row_text_def
        bad_row_def)
  from fl[rule_format, of bad_row] have "''bad'' \<in> dlq_key ` set (embed_dlq \<sigma>')"
    by (simp add: hello_and_bad_run k)
  moreover have "chat_data \<sigma>' = [hello_row\<lparr>processed := True\<rparr>, bad_row]"
    unfolding cd ids by (simp add: mark_processed_def new_engine_def hello_row_def bad_row_def)
  ultimately show ?thesis using vb ids by simp
qed


text \<open>
  The claim as stated (exactly the items that returned a vector are marked) fails on a
  batch with a blank item: its embed call returns the empty sentinel, no vector, and its
  identifier is marked processed all the same.
\<close>

theorem blank_item_marked_processed:
  "batch_run id 10 (new_engine CONFIG_DEFAULTS Both good_world 0 [blank_row, bad_row])
     = [(blank_row, Some []), (bad_row, None)]
   \<and> map_option fst
        (vectorize_batch id 10 (new_engine CONFIG_DEFAULTS Both good_world 0 [blank_row, bad_row]))
     = Some 1
   \<and> map_option (chat_data \<circ> snd)
        (vectorize_batch id 10 (new_engine CONFIG_DEFAULTS Both good_world 0 [blank_row, bad_row]))
     = Some [blank_row\<lparr>processed := True\<rparr>, bad_row]"
proof -
  let ?\<sigma> = "new_engine CONFIG_DEFAULTS Both good_world 0 [blank_row, bad_row]"
  from vectorize_batch_healthy[OF good_engine_healthy, of id 10 "[blank_row, bad_row]"]
  obtain \<sigma>' where
    vb: "vectorize_batch id 10 ?\<sigma> = Some (int (length (success_ids (batch_run id 10 ?\<sigma>))), \<sigma>')"
    and cd: "chat_data \<sigma>' = mark_processed (success_ids (batch_run id 10 ?\<sigma>)) (chat_data ?\<sigma>)"
    by blast
  have ids: "success_ids (batch_run id 10 ?\<sigma>) = [1]"
    unfolding blank_and_bad_run by (simp add: success_ids_def embedded_def blank_row_def)
  have "chat_data \<sigma>' = [blank_row\<lparr>processed := True\<rparr>, bad_row]"
    unfolding cd ids by (simp add: mark_processed_def new_engine_def blank_row_def bad_row_def)
  with vb ids blank_and_bad_run show ?thesis by simp
qed


section \<open>C2: the empty sentinel in a batch\<close>

text \<open>
  Claim C2, as the code has it. \<open>vectorize_batch\<close> tests \<open>vec is None\<close>, and the empty
  sentinel is \<open>[]\<close>, so only an item whose embed call returned \<open>None\<close> is a failure. In a
  healthy environment the loop ends with \<open>rowids_success\<close> holding the identifiers of the
  items whose call returned anything else and \<open>failed\<close> holding the others, the batch
  returns the length of \<open>rowids_success\<close>, and an item whose text normalises to nothing is
  a success: its call returned \<open>[]\<close>, its identifier is in \<open>rowids_success\<close> and not in
  \<open>failed\<close>, and after the batch its row is marked processed.
\<close>

theorem empty_sentinel_is_a_success:
  assumes h: "healthy \<sigma>"
  shows "\<exists>vectors \<sigma>2 \<sigma>'.
       embed_rows H (batch_of b \<sigma>) ([], [], []) (log_event ''INFO'' ''batch_start'' (io_tick \<sigma>))
         = Some (Returned (vectors, success_ids (batch_run H b \<sigma>),
                           failed_ids (batch_run H b \<sigma>)), \<sigma>2)
     \<and> map fst (batch_run H b \<sigma>) = batch_of b \<sigma>
     \<and> success_ids (batch_run H b \<sigma>)
           = map (\<lambda>x. rowid (fst x)) (filter (\<lambda>x. snd x \<noteq> None) (batch_run H b \<sigma>))
     \<and> failed_ids (batch_run H b \<sigma>)
           = map (\<lambda>x. (rowid (fst x), bubble_id (fst x)))
               (filter (\<lambda>x. snd x = None) (batch_run H b \<sigma>))
     \<and> vectorize_batch H b \<sigma> = Some (int (length (success_ids (batch_run H b \<sigma>))), \<sigma>')
     \<and> (\<forall>r \<in> set (batch_of b \<sigma>). norm_text (row_text r) 8000 = []
           \<longrightarrow> (r, Some []) \<in> set (batch_run H b \<sigma>)
               \<and> rowid r \<in> set (success_ids (batch_run H b \<sigma>))
               \<and> (distinct (map rowid (chat_data \<sigma>))
                    \<longrightarrow> (rowid r, bubble_id r) \<notin> set (failed_ids (batch_run H b \<sigma>))))
     \<and> (\<forall>r \<in> set (batch_of b \<sigma>). norm_text (row_text r) 8000 = []
           \<longrightarrow> r\<lparr>processed := True\<rparr> \<in> set (chat_data \<sigma>'))"
proof -
  let ?R = "batch_run H b \<sigma>"
  from vectorize_batch_healthy[OF h, of H b] obtain \<sigma>2 \<sigma>' where
    er: "embed_rows H (batch_of b \<sigma>) ([], [], []) (log_event ''INFO'' ''batch_start'' (io_tick \<sigma>))
              = Some (Returned (success_items ?R, success_ids ?R, failed_ids ?R), \<sigma>2)"
    and mf: "map fst ?R = batch_of b \<sigma>"
    and vb: "vectorize_batch H b \<sigma> = Some (int (length (success_ids ?R)), \<sigma>')"
    and vm: "batch_of b \<sigma> \<noteq> [] \<longrightarrow>
                vectorize_batch H b \<sigma>
                  = Some (mark_batch (success_ids ?R) (failed_ids ?R)
                            (write_sinks (success_items ?R) \<sigma>2))"
    and cd: "chat_data \<sigma>' = mark_processed (success_ids ?R) (chat_data \<sigma>)" by blast
  have key: "\<And>r. r \<in> set (batch_of b \<sigma>) \<Longrightarrow> norm_text (row_text r) 8000 = []
      \<Longrightarrow> (r, Some []) \<in> set ?R"
  proof -
    fix r assume r: "r \<in> set (batch_of b \<sigma>)" and bl: "norm_text (row_text r) 8000 = []"
    from r mf have "r \<in> fst ` set ?R" by (metis set_map)
    then obtain out where o: "(r, out) \<in> set ?R" by force
    from batch_results_blank[OF o[unfolded batch_run_def] bl] o show "(r, Some []) \<in> set ?R" by simp
  qed
  have A: "\<forall>r \<in> set (batch_of b \<sigma>). norm_text (row_text r) 8000 = []
           \<longrightarrow> (r, Some []) \<in> set ?R
               \<and> rowid r \<in> set (success_ids ?R)
               \<and> (distinct (map rowid (chat_data \<sigma>))
                    \<longrightarrow> (rowid r, bubble_id r) \<notin> set (failed_ids ?R))"
  proof (intro ballI impI)
    fix r assume r: "r \<in> set (batch_of b \<sigma>)" and bl: "norm_text (row_text r) 8000 = []"
    note k = key[OF r bl]
    show "(r, Some []) \<in> set ?R
               \<and> rowid r \<in> set (success_ids ?R)
               \<and> (distinct (map rowid (chat_data \<sigma>))
                    \<longrightarrow> (rowid r, bubble_id r) \<notin> set (failed_ids ?R))"
    proof (cases "distinct (map rowid (chat_data \<sigma>))")
      case False
      with k show ?thesis by (auto simp: success_items_iff success_ids_iff)
    next
      case True
      have dR: "distinct (map rowid (map fst ?R))"
      proof -
        have "distinct (map rowid (batch_of b \<sigma>))"
          using True by (simp add: batch_of_def fetch_unprocessed_def limit_rows_def
              distinct_map_filter distinct_take take_map[symmetric])
        then show ?thesis by (simp add: mf)
      qed
      have nf: "(rowid r, bubble_id r) \<notin> set (failed_ids ?R)"
      proof
        assume "(rowid r, bubble_id r) \<in> set (failed_ids ?R)"
        then obtain r' where r': "(r', None) \<in> set ?R" "rowid r' = rowid r"
          by (force simp: failed_ids_def embedded_def)
        have dk: "distinct (map (\<lambda>x. rowid (fst x)) ?R)" using dR by (simp add: comp_def)
        from dk have "inj_on (\<lambda>x. rowid (fst x)) (set ?R)" by (simp add: distinct_map)
        from inj_onD[OF this _ k r'(1)] r'(2) have "(r, Some []) = (r', None)" by simp
        then show False by simp
      qed
      from k nf show ?thesis
        by (auto simp: success_items_iff success_ids_iff)
    qed
  qed
  have B: "\<forall>r \<in> set (batch_of b \<sigma>). norm_text (row_text r) 8000 = []
           \<longrightarrow> r\<lparr>processed := True\<rparr> \<in> set (chat_data \<sigma>')"
  proof (intro ballI impI)
    fix r assume r: "r \<in> set (batch_of b \<sigma>)" and bl: "norm_text (row_text r) 8000 = []"
    from key[OF r bl] have "rowid r \<in> set (success_ids ?R)" by (auto simp: success_ids_iff)
    moreover from r batch_of_subset[of b \<sigma>] have "r \<in> set (chat_data \<sigma>)" by auto
    ultimately show "r\<lparr>processed := True\<rparr> \<in> set (chat_data \<sigma>')"
      unfolding cd by (intro mark_processed_mem(1))
  qed
  have S: "success_ids ?R = map (\<lambda>x. rowid (fst x)) (filter (\<lambda>x. snd x \<noteq> None) ?R)"
    by (simp add: success_ids_def embedded_def[abs_def])
  have F: "failed_ids ?R
      = map (\<lambda>x. (rowid (fst x), bubble_id (fst x))) (filter (\<lambda>x. snd x = None) ?R)"
    by (simp add: failed_ids_def embedded_def[abs_def])
  show ?thesis
    apply (rule exI[of _ "success_items ?R"], rule exI[of _ \<sigma>2], rule exI[of _ \<sigma>'])
    apply (intro conjI)
          apply (rule er)
         apply (rule mf)
        apply (rule S)
       apply (rule F)
      apply (rule vb)
     apply (rule A)
    apply (rule B)
    done
qed

theorem empty_sentinel_is_a_success_witness:
  "\<exists>\<sigma>'. vectorize_batch id 10 (new_engine CONFIG_DEFAULTS Both good_world 0 [blank_row, bad_row])
           = Some (1, \<sigma>')
     \<and> success_ids (batch_run id 10 (new_engine CONFIG_DEFAULTS Both good_world 0 [blank_row, bad_row]))
         = [1]
     \<and> failed_ids (batch_run id 10 (new_engine CONFIG_DEFAULTS Both good_world 0 [blank_row, bad_row]))
         = [(2, ''b2'')]
     \<and> blank_row\<lparr>processed := True\<rparr> \<in> set (chat_data \<sigma>')"
proof -
  let ?\<sigma> = "new_engine CONFIG_DEFAULTS Both good_world 0 [blank_row, bad_row]"
  from empty_sentinel_is_a_success[OF good_engine_healthy, of id 10 "[blank_row, bad_row]"]
  obtain \<sigma>' where
    s: "success_ids (batch_run id 10 ?\<sigma>)
           = map (\<lambda>x. rowid (fst x)) (filter (\<lambda>x. snd x \<noteq> None) (batch_run id 10 ?\<sigma>))"
    and f: "failed_ids (batch_run id 10 ?\<sigma>)
           = map (\<lambda>x. (rowid (fst x), bubble_id (fst x)))
               (filter (\<lambda>x. snd x = None) (batch_run id 10 ?\<sigma>))"
    and vb: "vectorize_batch id 10 ?\<sigma> = Some (int (length (success_ids (batch_run id 10 ?\<sigma>))), \<sigma>')"
    and b: "\<forall>r \<in> set (batch_of 10 ?\<sigma>). norm_text (row_text r) 8000 = []
           \<longrightarrow> r\<lparr>processed := True\<rparr> \<in> set (chat_data \<sigma>')"
    by blast
  have bo: "blank_row \<in> set (batch_of 10 ?\<sigma>)"
    by (simp add: batch_of_def fetch_unprocessed_def limit_rows_def new_engine_def blank_row_def)
  have bl: "norm_text (row_text blank_row) 8000 = []"
    by (simp add: norm_text_def strip_def isspace_def slice_to_def row_text_def blank_row_def)
  have ids: "success_ids (batch_run id 10 ?\<sigma>) = [1]"
    by (subst s, subst blank_and_bad_run) (simp add: blank_row_def)
  have fl: "failed_ids (batch_run id 10 ?\<sigma>) = [(2, ''b2'')]"
    by (subst f, subst blank_and_bad_run) (simp add: bad_row_def)
  from b[rule_format, OF bo bl] have "blank_row\<lparr>processed := True\<rparr> \<in> set (chat_data \<sigma>')"
    by simp
  with vb ids fl show ?thesis by simp
qed


text \<open>
  The claim as stated fails on the batch of a blank item and an item that the endpoint
  rejects: the batch reports one success, and the blank row is marked processed while the
  other row is not. The record with the empty vector was in the list given to the sink
  writers: the \<open>vectors\<close> table took it, and the Qdrant collection, of size two, refused the
  upsert.
\<close>

theorem blank_item_reaches_sinks:
  "map_option fst
     (vectorize_batch id 10 (new_engine CONFIG_DEFAULTS Both good_world 0 [blank_row, bad_row]))
     = Some 1
   \<and> map_option (chat_data \<circ> snd)
        (vectorize_batch id 10 (new_engine CONFIG_DEFAULTS Both good_world 0 [blank_row, bad_row]))
     = Some [blank_row\<lparr>processed := True\<rparr>, bad_row]
   \<and> map_option (map (\<lambda>r. (vr_bubble_id r, vr_vector r)) \<circ> vectors_tbl \<circ> snd)
        (vectorize_batch id 10 (new_engine CONFIG_DEFAULTS Both good_world 0 [blank_row, bad_row]))
     = Some [(''b1'', [])]
   \<and> map_option (qdrant_points \<circ> snd)
        (vectorize_batch id 10 (new_engine CONFIG_DEFAULTS Both good_world 0 [blank_row, bad_row]))
     = Some []"
  by (simp add: vectorize_batch_def fetch_unprocessed_def limit_rows_def run_defs acquire_ready
      blank_row_def bad_row_def write_sinks_def write_to_mvm_def write_to_qdrant_def
      upsert_refused_def mvm_row_def point_of_def
      vectors_insert_def mark_batch_def mark_processed_def item_of_def upt3)

section \<open>C9: which rows of the work queue are flagged\<close>

text \<open>
  \<open>flagged_exactly S old new\<close>: the table \<open>new\<close> is the table \<open>old\<close>, row for row, with the
  \<open>processed\<close> flag raised on the rows whose \<open>rowid\<close> is in \<open>S\<close> and nothing else changed.
\<close>

definition flagged_exactly :: "int set \<Rightarrow> chat_row list \<Rightarrow> chat_row list \<Rightarrow> bool" where
  "flagged_exactly S old new \<longleftrightarrow>
     length new = length old
     \<and> (\<forall>i<length old.
           new ! i = (if rowid (old ! i) \<in> S then (old ! i)\<lparr>processed := True\<rparr> else old ! i))"

text \<open>
  \<open>batch_flagged H b \<sigma>\<close> lists the identifiers that \<open>vectorize_batch\<close> called in state \<open>\<sigma>\<close>
  marks: \<open>rowids_success\<close> when the batch gets as far as its \<open>UPDATE\<close> and the \<open>UPDATE\<close>
  succeeds, which is when it returns a positive count, and none when it returns 0.
\<close>

definition batch_flagged :: "(string \<Rightarrow> string) \<Rightarrow> int \<Rightarrow> sys \<Rightarrow> int list" where
  "batch_flagged H b \<sigma> =
     (case vectorize_batch H b \<sigma> of
        None \<Rightarrow> []
      | Some (n, \<sigma>') \<Rightarrow> if n = 0 then [] else success_ids (batch_run H b \<sigma>))"

text \<open>
  The states in which a mode calls \<open>vectorize_batch\<close>, in the order of the calls:
  \<open>instant_batches\<close> follows \<open>instant_loop\<close> and \<open>bulk_batches\<close> follows \<open>bulk_loop\<close>, step
  for step, and \<open>instant_mode_batches\<close> and \<open>bulk_mode_batches\<close> follow the two modes up to
  the loop. \<open>run_flagged H \<tau>s\<close> lists what the batches called in the states \<open>\<tau>s\<close> marked.
\<close>

partial_function (option) instant_batches :: "(string \<Rightarrow> string) \<Rightarrow> sys \<Rightarrow> sys list option" where
  "instant_batches H \<sigma> =
     (case get_queue_size \<sigma> of
        (q, \<sigma>1) \<Rightarrow>
          if 0 < q then
            (case vectorize_batch H 10 \<sigma>1 of
               None \<Rightarrow> None
             | Some (n, \<sigma>2) \<Rightarrow>
                 if n = 0 then Some [\<sigma>1]
                 else Option.bind (instant_batches H \<sigma>2) (\<lambda>\<tau>s. Some (\<sigma>1 # \<tau>s)))
          else Some [])"

definition instant_mode_batches :: "(string \<Rightarrow> string) \<Rightarrow> sys \<Rightarrow> sys list option" where
  "instant_mode_batches H \<sigma> =
     (case drain_dlq H 25 \<sigma> of
        None \<Rightarrow> None
      | Some \<sigma>1 \<Rightarrow>
          (case get_queue_size \<sigma>1 of
             (queue_size, \<sigma>2) \<Rightarrow>
               if queue_size = 0 then Some []
               else instant_batches H (log_event ''INFO'' ''mode_instant'' \<sigma>2)))"

fun bulk_batches :: "(string \<Rightarrow> string) \<Rightarrow> nat list \<Rightarrow> sys \<Rightarrow> sys list option" where
  "bulk_batches H [] \<sigma> = Some []"
| "bulk_batches H (batch_num # rest) \<sigma> =
     (case vectorize_batch H 10 \<sigma> of
        None \<Rightarrow> None
      | Some (n, \<sigma>1) \<Rightarrow>
          if n = 0 then Some [\<sigma>]
          else (case get_queue_size \<sigma>1 of
                  (remaining, \<sigma>2) \<Rightarrow>
                    Option.bind
                      (bulk_batches H rest
                         (sleep_for 2 (log_event ''INFO'' ''bulk_batch_progress'' \<sigma>2)))
                      (\<lambda>\<tau>s. Some (\<sigma> # \<tau>s))))"

definition bulk_mode_batches :: "(string \<Rightarrow> string) \<Rightarrow> int \<Rightarrow> sys \<Rightarrow> sys list option" where
  "bulk_mode_batches H max_batches \<sigma> =
     (case drain_dlq H 25 \<sigma> of
        None \<Rightarrow> None
      | Some \<sigma>1 \<Rightarrow>
          (case get_queue_size \<sigma>1 of
             (queue_size, \<sigma>2) \<Rightarrow>
               if queue_size = 0 then Some []
               else bulk_batches H [0..<nat max_batches] (log_event ''INFO'' ''mode_bulk'' \<sigma>2)))"

definition run_flagged :: "(string \<Rightarrow> string) \<Rightarrow> sys list \<Rightarrow> int list" where
  "run_flagged H \<tau>s = concat (map (batch_flagged H 10) \<tau>s)"

lemma get_queue_size_queue [simp]: "chat_data (snd (get_queue_size \<sigma>)) = chat_data \<sigma>"
  by (simp add: get_queue_size_def log_event_def io_tick_def)

lemma generate_embedding_queue:
  "generate_embedding H t \<sigma> = Some y \<Longrightarrow> chat_data (snd y) = chat_data \<sigma>"
  using generate_embedding_frame[of H t \<sigma> y] by (simp add: client_frame_def)

lemma drain_rows_queue:
  "drain_rows H rows \<sigma> = Some y \<Longrightarrow> chat_data (snd y) = chat_data \<sigma>"
proof (induction rows arbitrary: \<sigma>)
  case Nil
  then show ?case by auto
next
  case (Cons kt rows)
  obtain k t where kt: "kt = (k, t)" by (cases kt)
  from Cons.prems kt obtain z where g: "generate_embedding H t \<sigma> = Some z"
    by (cases "generate_embedding H t \<sigma>") auto
  obtain o1 \<sigma>1 where z: "z = (o1, \<sigma>1)" by (cases z)
  from generate_embedding_queue[OF g] z have c1: "chat_data \<sigma>1 = chat_data \<sigma>" by simp
  show ?case
  proof (cases o1)
    case (Raised e)
    with Cons.prems kt g z c1 show ?thesis by auto
  next
    case (Returned r)
    show ?thesis
    proof (cases r)
      case None
      with Cons.prems kt g z Returned have "drain_rows H rows \<sigma>1 = Some y" by simp
      from Cons.IH[OF this] c1 show ?thesis by simp
    next
      case (Some v)
      show ?thesis
      proof (cases "io_fault \<sigma>1")
        case True
        with Cons.prems kt g z Returned Some c1 show ?thesis by (auto simp: io_tick_def)
      next
        case False
        let ?\<sigma>2 = "log_event ''INFO'' ''dlq_recovered''
                     ((io_tick \<sigma>1)\<lparr>embed_dlq := filter (\<lambda>r. dlq_key r \<noteq> k) (embed_dlq \<sigma>1)\<rparr>)"
        from Cons.prems kt g z Returned Some False have "drain_rows H rows ?\<sigma>2 = Some y" by simp
        from Cons.IH[OF this] c1 show ?thesis by (simp add: log_event_def io_tick_def)
      qed
    qed
  qed
qed

lemma drain_dlq_queue:
  assumes "drain_dlq H m \<sigma> = Some \<sigma>'"
  shows "chat_data \<sigma>' = chat_data \<sigma>"
proof (cases "io_fault \<sigma>")
  case True
  with assms show ?thesis by (auto simp: drain_dlq_def log_event_def io_tick_def)
next
  case False
  show ?thesis
  proof (cases "list_retryable m (embed_dlq \<sigma>) = []")
    case True
    with assms False show ?thesis by (auto simp: drain_dlq_def Let_def io_tick_def)
  next
    case ne: False
    let ?\<sigma>s = "log_event ''INFO'' ''dlq_drain_start'' (io_tick \<sigma>)"
    from assms False ne obtain y where
      dr: "drain_rows H (list_retryable m (embed_dlq \<sigma>)) ?\<sigma>s = Some y"
      by (cases "drain_rows H (list_retryable m (embed_dlq \<sigma>)) ?\<sigma>s")
         (auto simp: drain_dlq_def Let_def)
    from drain_rows_queue[OF dr] have c: "chat_data (snd y) = chat_data \<sigma>"
      by (simp add: log_event_def io_tick_def)
    obtain o1 \<sigma>2 where y: "y = (o1, \<sigma>2)" by (cases y)
    from assms False ne dr y c show ?thesis
      by (cases o1) (auto simp: drain_dlq_def Let_def log_event_def)
  qed
qed

lemma embed_rows_frame:
  "embed_rows H rows (vs, ids, fl) \<sigma> = Some y \<Longrightarrow> client_frame \<sigma> (snd y)"
proof (induction rows arbitrary: vs ids fl \<sigma>)
  case Nil
  then show ?case by auto
next
  case (Cons row rows)
  from Cons.prems obtain z where g: "generate_embedding H (row_text row) \<sigma> = Some z"
    by (cases "generate_embedding H (row_text row) \<sigma>") (auto simp: Let_def)
  obtain o1 \<sigma>1 where z: "z = (o1, \<sigma>1)" by (cases z)
  from generate_embedding_frame[OF g] z have f1: "client_frame \<sigma> \<sigma>1" by simp
  show ?case
  proof (cases o1)
    case (Raised e)
    with Cons.prems g z f1 show ?thesis by (auto simp: Let_def)
  next
    case (Returned r)
    show ?thesis
    proof (cases r)
      case None
      with Cons.prems g z Returned
      have "embed_rows H rows (vs, ids, fl @ [(rowid row, bubble_id row)]) \<sigma>1 = Some y"
        by (simp add: Let_def)
      from f1 Cons.IH[OF this] show ?thesis by (rule client_frame_trans)
    next
      case (Some vec)
      with Cons.prems g z Returned
      have "embed_rows H rows (vs @ [item_of row (row_text row) vec], ids @ [rowid row], fl) \<sigma>1
              = Some y" by (simp add: Let_def)
      from f1 Cons.IH[OF this] show ?thesis by (rule client_frame_trans)
    qed
  qed
qed

lemma flagged_exactly_fields:
  assumes "flagged_exactly S old new"
  shows "length new = length old
     \<and> (\<forall>i<length old.
           rowid (new ! i) = rowid (old ! i) \<and> bubble_id (new ! i) = bubble_id (old ! i)
           \<and> composer_id (new ! i) = composer_id (old ! i)
           \<and> created_at_utc (new ! i) = created_at_utc (old ! i)
           \<and> chat_text (new ! i) = chat_text (old ! i)
           \<and> bubble_type_name (new ! i) = bubble_type_name (old ! i)
           \<and> (processed (new ! i) \<longleftrightarrow> processed (old ! i) \<or> rowid (old ! i) \<in> S))"
  using assms by (simp add: flagged_exactly_def)

lemma mark_processed_twice:
  "mark_processed ids2 (mark_processed ids1 rows) = mark_processed (ids1 @ ids2) rows"
  by (induction rows) (auto simp: mark_processed_def)

lemma mark_batch_result:
  assumes "mark_batch ids fl \<tau> = (n, \<sigma>')"
  shows "n = int (length (if n = 0 then [] else ids))
       \<and> chat_data \<sigma>' = mark_processed (if n = 0 then [] else ids) (chat_data \<tau>)"
  using assms
  by (auto simp: mark_batch_def Let_def log_event_def io_tick_def split: if_splits)

lemma vectorize_batch_flags:
  assumes "vectorize_batch H b \<sigma> = Some (n, \<sigma>')"
  shows "chat_data \<sigma>' = mark_processed (batch_flagged H b \<sigma>) (chat_data \<sigma>)
       \<and> n = int (length (batch_flagged H b \<sigma>))"
proof -
  have bf: "batch_flagged H b \<sigma> = (if n = 0 then [] else success_ids (batch_run H b \<sigma>))"
    by (simp add: batch_flagged_def assms)
  show ?thesis
  proof (cases "io_fault \<sigma>")
    case True
    with assms show ?thesis unfolding bf
      by (auto simp: vectorize_batch_def log_event_def io_tick_def)
  next
    case False
    show ?thesis
    proof (cases "batch_of b \<sigma> = []")
      case True
      with assms False show ?thesis unfolding bf
        by (auto simp: vectorize_batch_def batch_of_def Let_def io_tick_def)
    next
      case ne: False
      let ?\<sigma>s = "log_event ''INFO'' ''batch_start'' (io_tick \<sigma>)"
      from assms False ne obtain y where
        er: "embed_rows H (batch_of b \<sigma>) ([], [], []) ?\<sigma>s = Some y"
        by (cases "embed_rows H (batch_of b \<sigma>) ([], [], []) ?\<sigma>s")
           (auto simp: vectorize_batch_def batch_of_def Let_def)
      obtain o1 \<sigma>2 where y: "y = (o1, \<sigma>2)" by (cases y)
      show ?thesis
      proof (cases o1)
        case (Raised e)
        have "client_frame ?\<sigma>s \<sigma>2"
          using embed_rows_frame[OF er] y by simp
        then have "chat_data \<sigma>2 = chat_data \<sigma>"
          by (simp add: client_frame_def log_event_def io_tick_def)
        with assms False ne er y Raised show ?thesis unfolding bf
          by (auto simp: vectorize_batch_def batch_of_def Let_def log_event_def)
      next
        case (Returned acc)
        obtain vs ids fl where acc: "acc = (vs, ids, fl)" by (metis prod_cases3)
        from embed_rows_results[OF er[unfolded y Returned acc]]
        have ids: "ids = success_ids (batch_run H b \<sigma>)" and cf: "client_frame ?\<sigma>s \<sigma>2"
          by (simp_all add: batch_run_def)
        from cf have c2: "chat_data \<sigma>2 = chat_data \<sigma>"
          by (simp add: client_frame_def log_event_def io_tick_def)
        from assms False ne er y Returned acc
        have "mark_batch ids fl (write_sinks vs \<sigma>2) = (n, \<sigma>')"
          by (simp add: vectorize_batch_def batch_of_def Let_def)
        from mark_batch_result[OF this] c2 ids show ?thesis unfolding bf
          by (cases "n = 0") simp_all
      qed
    qed
  qed
qed

lemma batch_results_rows:
  "(r, out) \<in> set (batch_results H rows \<tau>) \<Longrightarrow> r \<in> set rows"
proof (induction rows arbitrary: \<tau>)
  case Nil
  then show ?case by simp
next
  case (Cons row rows)
  show ?case
  proof (cases "generate_embedding H (row_text row) \<tau>")
    case None
    with Cons.prems show ?thesis by simp
  next
    case (Some y)
    obtain o1 \<tau>1 where y: "y = (o1, \<tau>1)" by (cases y)
    show ?thesis
    proof (cases o1)
      case (Raised e)
      with Cons.prems Some y show ?thesis by simp
    next
      case (Returned res)
      with Cons.prems Some y
      have "(r, out) = (row, res) \<or> (r, out) \<in> set (batch_results H rows \<tau>1)" by simp
      with Cons.IH[of \<tau>1] show ?thesis by auto
    qed
  qed
qed

lemma batch_flagged_rows:
  assumes "i \<in> set (batch_flagged H b \<sigma>)"
  shows "\<exists>r v. r \<in> set (chat_data \<sigma>) \<and> \<not> processed r \<and> rowid r = i
               \<and> (r, Some v) \<in> set (batch_run H b \<sigma>)"
proof -
  from assms have "i \<in> set (success_ids (batch_run H b \<sigma>))"
    by (auto simp: batch_flagged_def split: option.splits if_splits)
  then obtain r v where rv: "(r, Some v) \<in> set (batch_run H b \<sigma>)" "rowid r = i"
    by (auto simp: success_ids_iff)
  from rv(1) have "r \<in> set (batch_of b \<sigma>)"
    unfolding batch_run_def by (rule batch_results_rows)
  with batch_of_subset[of b \<sigma>] have "r \<in> set (chat_data \<sigma>)" "\<not> processed r" by auto
  with rv show ?thesis by blast
qed

lemma instant_loop_flags:
  assumes "instant_loop H tot \<sigma> = Some y"
  shows "\<exists>\<tau>s. instant_batches H \<sigma> = Some \<tau>s
          \<and> chat_data (snd y) = mark_processed (run_flagged H \<tau>s) (chat_data \<sigma>)
          \<and> fst y = tot + int (length (run_flagged H \<tau>s))"
proof (rule instant_loop.raw_induct[OF _ assms,
      where P = "\<lambda>H tot \<sigma> y. \<exists>\<tau>s. instant_batches H \<sigma> = Some \<tau>s
          \<and> chat_data (snd y) = mark_processed (run_flagged H \<tau>s) (chat_data \<sigma>)
          \<and> fst y = tot + int (length (run_flagged H \<tau>s))"])
  fix loop :: "(string \<Rightarrow> string) \<Rightarrow> int \<Rightarrow> sys \<Rightarrow> (int \<times> sys) option" and H tot \<sigma> y
  assume IH: "\<And>H tot \<sigma> y. loop H tot \<sigma> = Some y \<Longrightarrow>
        \<exists>\<tau>s. instant_batches H \<sigma> = Some \<tau>s
          \<and> chat_data (snd y) = mark_processed (run_flagged H \<tau>s) (chat_data \<sigma>)
          \<and> fst y = tot + int (length (run_flagged H \<tau>s))"
    and eq: "(case get_queue_size \<sigma> of
               (q, \<sigma>1) \<Rightarrow>
                 if 0 < q
                 then case vectorize_batch H 10 \<sigma>1 of None \<Rightarrow> None
                      | Some (n, \<sigma>2) \<Rightarrow>
                          if n = 0 then Some (tot, \<sigma>2) else loop H (tot + n) \<sigma>2
                 else Some (tot, \<sigma>1)) = Some y"
  obtain q \<sigma>1 where gq: "get_queue_size \<sigma> = (q, \<sigma>1)" by (cases "get_queue_size \<sigma>")
  with get_queue_size_queue[of \<sigma>] have c1: "chat_data \<sigma>1 = chat_data \<sigma>" by simp
  show "\<exists>\<tau>s. instant_batches H \<sigma> = Some \<tau>s
          \<and> chat_data (snd y) = mark_processed (run_flagged H \<tau>s) (chat_data \<sigma>)
          \<and> fst y = tot + int (length (run_flagged H \<tau>s))"
  proof (cases "0 < q")
    case False
    with gq have "instant_batches H \<sigma> = Some []" by (subst instant_batches.simps) simp
    moreover from False eq gq have "y = (tot, \<sigma>1)" by simp
    ultimately show ?thesis using c1 by (simp add: run_flagged_def)
  next
    case True
    with eq gq obtain n \<sigma>2 where vb: "vectorize_batch H 10 \<sigma>1 = Some (n, \<sigma>2)"
      by (cases "vectorize_batch H 10 \<sigma>1") auto
    note fl = vectorize_batch_flags[OF vb]
    show ?thesis
    proof (cases "n = 0")
      case n0: True
      with True gq vb have "instant_batches H \<sigma> = Some [\<sigma>1]"
        by (subst instant_batches.simps) simp
      moreover from True n0 eq gq vb have "y = (tot, \<sigma>2)" by simp
      ultimately show ?thesis using fl c1 n0 by (simp add: run_flagged_def)
    next
      case False
      with eq gq True vb have lp: "loop H (tot + n) \<sigma>2 = Some y" by simp
      from IH[OF lp] obtain \<tau>s where
        t: "instant_batches H \<sigma>2 = Some \<tau>s"
        and c: "chat_data (snd y) = mark_processed (run_flagged H \<tau>s) (chat_data \<sigma>2)"
        and f: "fst y = tot + n + int (length (run_flagged H \<tau>s))" by blast
      from True False gq vb t have "instant_batches H \<sigma> = Some (\<sigma>1 # \<tau>s)"
        by (subst instant_batches.simps) simp
      moreover have "chat_data (snd y)
          = mark_processed (run_flagged H (\<sigma>1 # \<tau>s)) (chat_data \<sigma>)"
        using c fl c1 by (simp add: run_flagged_def mark_processed_twice)
      moreover have "fst y = tot + int (length (run_flagged H (\<sigma>1 # \<tau>s)))"
        using f fl by (simp add: run_flagged_def)
      ultimately show ?thesis by blast
    qed
  qed
qed

lemma bulk_loop_flags:
  "bulk_loop H ns tot \<sigma> = Some y \<Longrightarrow>
   \<exists>\<tau>s. bulk_batches H ns \<sigma> = Some \<tau>s
      \<and> chat_data (snd y) = mark_processed (run_flagged H \<tau>s) (chat_data \<sigma>)
      \<and> fst y = tot + int (length (run_flagged H \<tau>s))"
proof (induction ns arbitrary: tot \<sigma>)
  case Nil
  then show ?case by (auto simp: run_flagged_def)
next
  case (Cons batch_num ns)
  from Cons.prems obtain n \<sigma>1 where vb: "vectorize_batch H 10 \<sigma> = Some (n, \<sigma>1)"
    by (cases "vectorize_batch H 10 \<sigma>") auto
  note fl = vectorize_batch_flags[OF vb]
  show ?case
  proof (cases "n = 0")
    case True
    with Cons.prems vb have "y = (tot, \<sigma>1)" by simp
    with True vb fl show ?thesis by (simp add: run_flagged_def)
  next
    case False
    obtain remaining \<sigma>2 where gq: "get_queue_size \<sigma>1 = (remaining, \<sigma>2)"
      by (cases "get_queue_size \<sigma>1")
    with get_queue_size_queue[of \<sigma>1] have c2: "chat_data \<sigma>2 = chat_data \<sigma>1" by simp
    let ?\<sigma>3 = "sleep_for 2 (log_event ''INFO'' ''bulk_batch_progress'' \<sigma>2)"
    have c3: "chat_data ?\<sigma>3 = chat_data \<sigma>1" by (simp add: sleep_for_def log_event_def c2)
    from Cons.prems vb False gq have "bulk_loop H ns (tot + n) ?\<sigma>3 = Some y" by simp
    from Cons.IH[OF this] obtain \<tau>s where
      t: "bulk_batches H ns ?\<sigma>3 = Some \<tau>s"
      and c: "chat_data (snd y) = mark_processed (run_flagged H \<tau>s) (chat_data ?\<sigma>3)"
      and f: "fst y = tot + n + int (length (run_flagged H \<tau>s))" by blast
    from False vb gq t have "bulk_batches H (batch_num # ns) \<sigma> = Some (\<sigma> # \<tau>s)" by simp
    moreover have "chat_data (snd y) = mark_processed (run_flagged H (\<sigma> # \<tau>s)) (chat_data \<sigma>)"
      using c fl c3 by (simp add: run_flagged_def mark_processed_twice)
    moreover have "fst y = tot + int (length (run_flagged H (\<sigma> # \<tau>s)))"
      using f fl by (simp add: run_flagged_def)
    ultimately show ?thesis by blast
  qed
qed

lemma run_instant_mode_flags:
  assumes "run_instant_mode H \<sigma> = Some (n, \<sigma>')"
  shows "\<exists>\<tau>s. instant_mode_batches H \<sigma> = Some \<tau>s
          \<and> chat_data \<sigma>' = mark_processed (run_flagged H \<tau>s) (chat_data \<sigma>)
          \<and> n = int (length (run_flagged H \<tau>s))"
proof -
  from assms obtain \<sigma>1 where d: "drain_dlq H 25 \<sigma> = Some \<sigma>1"
    by (cases "drain_dlq H 25 \<sigma>") (auto simp: run_instant_mode_def)
  from drain_dlq_queue[OF d] have c1: "chat_data \<sigma>1 = chat_data \<sigma>" .
  obtain q \<sigma>2 where gq: "get_queue_size \<sigma>1 = (q, \<sigma>2)" by (cases "get_queue_size \<sigma>1")
  with get_queue_size_queue[of \<sigma>1] c1 have c2: "chat_data \<sigma>2 = chat_data \<sigma>" by simp
  show ?thesis
  proof (cases "q = 0")
    case True
    with assms d gq c2 show ?thesis
      by (auto simp: run_instant_mode_def instant_mode_batches_def run_flagged_def)
  next
    case False
    let ?\<sigma>i = "log_event ''INFO'' ''mode_instant'' \<sigma>2"
    from assms d gq False have "instant_loop H 0 ?\<sigma>i = Some (n, \<sigma>')"
      by (simp add: run_instant_mode_def)
    from instant_loop_flags[OF this] obtain \<tau>s where
      "instant_batches H ?\<sigma>i = Some \<tau>s"
      "chat_data \<sigma>' = mark_processed (run_flagged H \<tau>s) (chat_data ?\<sigma>i)"
      "n = int (length (run_flagged H \<tau>s))" by auto
    with d gq False c2 show ?thesis
      by (auto simp: instant_mode_batches_def log_event_def)
  qed
qed

lemma run_bulk_mode_flags:
  assumes "run_bulk_mode H mb \<sigma> = Some (n, \<sigma>')"
  shows "\<exists>\<tau>s. bulk_mode_batches H mb \<sigma> = Some \<tau>s
          \<and> chat_data \<sigma>' = mark_processed (run_flagged H \<tau>s) (chat_data \<sigma>)
          \<and> n = int (length (run_flagged H \<tau>s))"
proof -
  from assms obtain \<sigma>1 where d: "drain_dlq H 25 \<sigma> = Some \<sigma>1"
    by (cases "drain_dlq H 25 \<sigma>") (auto simp: run_bulk_mode_def)
  from drain_dlq_queue[OF d] have c1: "chat_data \<sigma>1 = chat_data \<sigma>" .
  obtain q \<sigma>2 where gq: "get_queue_size \<sigma>1 = (q, \<sigma>2)" by (cases "get_queue_size \<sigma>1")
  with get_queue_size_queue[of \<sigma>1] c1 have c2: "chat_data \<sigma>2 = chat_data \<sigma>" by simp
  show ?thesis
  proof (cases "q = 0")
    case True
    with assms d gq c2 show ?thesis
      by (auto simp: run_bulk_mode_def bulk_mode_batches_def run_flagged_def)
  next
    case False
    let ?\<sigma>b = "log_event ''INFO'' ''mode_bulk'' \<sigma>2"
    from assms d gq False obtain z where
      bl: "bulk_loop H [0..<nat mb] 0 ?\<sigma>b = Some z"
      by (cases "bulk_loop H [0..<nat mb] 0 ?\<sigma>b") (auto simp: run_bulk_mode_def)
    obtain t \<sigma>3 where z: "z = (t, \<sigma>3)" by (cases z)
    obtain r \<sigma>4 where g4: "get_queue_size \<sigma>3 = (r, \<sigma>4)" by (cases "get_queue_size \<sigma>3")
    with get_queue_size_queue[of \<sigma>3] have c4: "chat_data \<sigma>4 = chat_data \<sigma>3" by simp
    from assms d gq False bl z g4 have res: "n = t" "\<sigma>' = \<sigma>4"
      by (auto simp: run_bulk_mode_def)
    from bulk_loop_flags[OF bl] z obtain \<tau>s where
      "bulk_batches H [0..<nat mb] ?\<sigma>b = Some \<tau>s"
      "chat_data \<sigma>3 = mark_processed (run_flagged H \<tau>s) (chat_data ?\<sigma>b)"
      "t = int (length (run_flagged H \<tau>s))" by auto
    with d gq False c2 c4 res show ?thesis
      by (auto simp: bulk_mode_batches_def log_event_def)
  qed
qed

text \<open>
  Claim C9, as the code has it. Counting the queue, an embed call and the draining of the
  dead letter table leave the table \<open>chat_data\<close> as it is. A batch that returns \<open>n\<close> raises
  the flag of exactly the rows whose identifier is in \<open>batch_flagged\<close>, of which there are
  \<open>n\<close>: none when \<open>n = 0\<close>, and otherwise the identifiers of the items of the batch whose
  embed call did not return \<open>None\<close>. Each of them belongs to a row that was in the queue,
  unprocessed, and whose embed call in this batch returned a vector or the empty sentinel
  \<open>[]\<close>; so a blank item is flagged although it has no vector. A run of the instant or of
  the bulk mode that returns \<open>n\<close> raises the flag of exactly the rows that the batches it
  called marked, \<open>n\<close> identifiers in all. In every case no row is added or deleted, every
  field but \<open>processed\<close> of every row is unchanged, and a row is processed afterwards if
  and only if it was before or its identifier was marked. (The modes may not return; the
  statement is about the runs that do.) On a queue of two items in instant mode, where
  the first batch embeds one item and fails on the other and the second batch fails again
  and ends the loop, only the first row is flagged.
\<close>

theorem work_queue_frame:
  "chat_data (snd (get_queue_size \<sigma>)) = chat_data \<sigma>
   \<and> (\<forall>y. generate_embedding H t \<sigma> = Some y \<longrightarrow> chat_data (snd y) = chat_data \<sigma>)
   \<and> (\<forall>\<sigma>'. drain_dlq H m \<sigma> = Some \<sigma>' \<longrightarrow> chat_data \<sigma>' = chat_data \<sigma>)
   \<and> (\<forall>n \<sigma>'. vectorize_batch H b \<sigma> = Some (n, \<sigma>')
         \<longrightarrow> flagged_exactly (set (batch_flagged H b \<sigma>)) (chat_data \<sigma>) (chat_data \<sigma>')
             \<and> n = int (length (batch_flagged H b \<sigma>))
             \<and> batch_flagged H b \<sigma> = (if n = 0 then [] else success_ids (batch_run H b \<sigma>)))
   \<and> (\<forall>i \<in> set (batch_flagged H b \<sigma>).
         \<exists>r v. r \<in> set (chat_data \<sigma>) \<and> \<not> processed r \<and> rowid r = i
               \<and> (r, Some v) \<in> set (batch_run H b \<sigma>))
   \<and> (\<forall>n \<sigma>'. run_instant_mode H \<sigma> = Some (n, \<sigma>')
         \<longrightarrow> (\<exists>\<tau>s. instant_mode_batches H \<sigma> = Some \<tau>s
                  \<and> flagged_exactly (set (run_flagged H \<tau>s)) (chat_data \<sigma>) (chat_data \<sigma>')
                  \<and> n = int (length (run_flagged H \<tau>s))))
   \<and> (\<forall>n \<sigma>'. run_bulk_mode H mb \<sigma> = Some (n, \<sigma>')
         \<longrightarrow> (\<exists>\<tau>s. bulk_mode_batches H mb \<sigma> = Some \<tau>s
                  \<and> flagged_exactly (set (run_flagged H \<tau>s)) (chat_data \<sigma>) (chat_data \<sigma>')
                  \<and> n = int (length (run_flagged H \<tau>s))))
   \<and> (\<forall>\<tau>s. run_flagged H \<tau>s = concat (map (batch_flagged H 10) \<tau>s))
   \<and> (\<forall>S old new. flagged_exactly S old new
         \<longrightarrow> length new = length old
             \<and> (\<forall>i<length old.
                   rowid (new ! i) = rowid (old ! i) \<and> bubble_id (new ! i) = bubble_id (old ! i)
                   \<and> composer_id (new ! i) = composer_id (old ! i)
                   \<and> created_at_utc (new ! i) = created_at_utc (old ! i)
                   \<and> chat_text (new ! i) = chat_text (old ! i)
                   \<and> bubble_type_name (new ! i) = bubble_type_name (old ! i)
                   \<and> (processed (new ! i) \<longleftrightarrow> processed (old ! i) \<or> rowid (old ! i) \<in> S)))"
proof -
  have fm: "\<And>ids rows. flagged_exactly (set ids) rows (mark_processed ids rows)"
    by (simp add: flagged_exactly_def mark_processed_def)
  have A: "chat_data (snd (get_queue_size \<sigma>)) = chat_data \<sigma>" by simp
  have B: "\<forall>y. generate_embedding H t \<sigma> = Some y \<longrightarrow> chat_data (snd y) = chat_data \<sigma>"
    using generate_embedding_queue by blast
  have C: "\<forall>\<sigma>'. drain_dlq H m \<sigma> = Some \<sigma>' \<longrightarrow> chat_data \<sigma>' = chat_data \<sigma>"
    using drain_dlq_queue by blast
  have D: "\<forall>n \<sigma>'. vectorize_batch H b \<sigma> = Some (n, \<sigma>')
         \<longrightarrow> flagged_exactly (set (batch_flagged H b \<sigma>)) (chat_data \<sigma>) (chat_data \<sigma>')
             \<and> n = int (length (batch_flagged H b \<sigma>))
             \<and> batch_flagged H b \<sigma> = (if n = 0 then [] else success_ids (batch_run H b \<sigma>))"
  proof (intro allI impI)
    fix n \<sigma>' assume vb: "vectorize_batch H b \<sigma> = Some (n, \<sigma>')"
    from vectorize_batch_flags[OF vb] fm[of "batch_flagged H b \<sigma>" "chat_data \<sigma>"]
    show "flagged_exactly (set (batch_flagged H b \<sigma>)) (chat_data \<sigma>) (chat_data \<sigma>')
             \<and> n = int (length (batch_flagged H b \<sigma>))
             \<and> batch_flagged H b \<sigma> = (if n = 0 then [] else success_ids (batch_run H b \<sigma>))"
      by (simp add: batch_flagged_def vb)
  qed
  have E: "\<forall>i \<in> set (batch_flagged H b \<sigma>).
         \<exists>r v. r \<in> set (chat_data \<sigma>) \<and> \<not> processed r \<and> rowid r = i
               \<and> (r, Some v) \<in> set (batch_run H b \<sigma>)"
    using batch_flagged_rows by blast
  have F: "\<forall>n \<sigma>'. run_instant_mode H \<sigma> = Some (n, \<sigma>')
         \<longrightarrow> (\<exists>\<tau>s. instant_mode_batches H \<sigma> = Some \<tau>s
                  \<and> flagged_exactly (set (run_flagged H \<tau>s)) (chat_data \<sigma>) (chat_data \<sigma>')
                  \<and> n = int (length (run_flagged H \<tau>s)))"
  proof (intro allI impI)
    fix n \<sigma>' assume "run_instant_mode H \<sigma> = Some (n, \<sigma>')"
    from run_instant_mode_flags[OF this] obtain \<tau>s where
      t: "instant_mode_batches H \<sigma> = Some \<tau>s"
      and c: "chat_data \<sigma>' = mark_processed (run_flagged H \<tau>s) (chat_data \<sigma>)"
      and n: "n = int (length (run_flagged H \<tau>s))" by blast
    from c have "flagged_exactly (set (run_flagged H \<tau>s)) (chat_data \<sigma>) (chat_data \<sigma>')"
      by (simp add: fm)
    with t n show "\<exists>\<tau>s. instant_mode_batches H \<sigma> = Some \<tau>s
                  \<and> flagged_exactly (set (run_flagged H \<tau>s)) (chat_data \<sigma>) (chat_data \<sigma>')
                  \<and> n = int (length (run_flagged H \<tau>s))" by blast
  qed
  have G: "\<forall>n \<sigma>'. run_bulk_mode H mb \<sigma> = Some (n, \<sigma>')
         \<longrightarrow> (\<exists>\<tau>s. bulk_mode_batches H mb \<sigma> = Some \<tau>s
                  \<and> flagged_exactly (set (run_flagged H \<tau>s)) (chat_data \<sigma>) (chat_data \<sigma>')
                  \<and> n = int (length (run_flagged H \<tau>s)))"
  proof (intro allI impI)
    fix n \<sigma>' assume "run_bulk_mode H mb \<sigma> = Some (n, \<sigma>')"
    from run_bulk_mode_flags[OF this] obtain \<tau>s where
      t: "bulk_mode_batches H mb \<sigma> = Some \<tau>s"
      and c: "chat_data \<sigma>' = mark_processed (run_flagged H \<tau>s) (chat_data \<sigma>)"
      and n: "n = int (length (run_flagged H \<tau>s))" by blast
    from c have "flagged_exactly (set (run_flagged H \<tau>s)) (chat_data \<sigma>) (chat_data \<sigma>')"
      by (simp add: fm)
    with t n show "\<exists>\<tau>s. bulk_mode_batches H mb \<sigma> = Some \<tau>s
                  \<and> flagged_exactly (set (run_flagged H \<tau>s)) (chat_data \<sigma>) (chat_data \<sigma>')
                  \<and> n = int (length (run_flagged H \<tau>s))" by blast
  qed
  have R: "\<forall>\<tau>s. run_flagged H \<tau>s = concat (map (batch_flagged H 10) \<tau>s)"
    by (simp add: run_flagged_def)
  have I: "\<forall>S old new. flagged_exactly S old new
         \<longrightarrow> length new = length old
             \<and> (\<forall>i<length old.
                   rowid (new ! i) = rowid (old ! i) \<and> bubble_id (new ! i) = bubble_id (old ! i)
                   \<and> composer_id (new ! i) = composer_id (old ! i)
                   \<and> created_at_utc (new ! i) = created_at_utc (old ! i)
                   \<and> chat_text (new ! i) = chat_text (old ! i)
                   \<and> bubble_type_name (new ! i) = bubble_type_name (old ! i)
                   \<and> (processed (new ! i) \<longleftrightarrow> processed (old ! i) \<or> rowid (old ! i) \<in> S))"
    using flagged_exactly_fields by blast
  from A B C D E F G R I show ?thesis by (intro conjI)
qed

theorem work_queue_frame_witness:
  "\<exists>\<sigma>' \<tau>s.
     run_instant_mode id (new_engine CONFIG_DEFAULTS Both good_world 0 [hello_row, bad_row])
       = Some (1, \<sigma>')
     \<and> chat_data \<sigma>' = [hello_row\<lparr>processed := True\<rparr>, bad_row]
     \<and> instant_mode_batches id (new_engine CONFIG_DEFAULTS Both good_world 0 [hello_row, bad_row])
         = Some \<tau>s
     \<and> run_flagged id \<tau>s = [3]"
proof -
  let ?\<sigma> = "new_engine CONFIG_DEFAULTS Both good_world 0 [hello_row, bad_row]"
  have two_batches: "map_option fst (run_instant_mode id ?\<sigma>) = Some 1
      \<and> map_option (chat_data \<circ> snd) (run_instant_mode id ?\<sigma>)
          = Some [hello_row\<lparr>processed := True\<rparr>, bad_row]"
    by (simp add: run_instant_mode_def drain_dlq_def list_retryable_def limit_rows_def
        get_queue_size_def instant_loop.simps
        vectorize_batch_def fetch_unprocessed_def run_defs acquire_ready
        hello_row_def bad_row_def write_sinks_def write_to_mvm_def write_to_qdrant_def
        upsert_refused_def mvm_row_def point_of_def
        vectors_insert_def mark_batch_def mark_processed_def item_of_def upt3)
  from two_batches obtain y where y: "run_instant_mode id ?\<sigma> = Some y"
    by (cases "run_instant_mode id ?\<sigma>") auto
  obtain n \<sigma>' where ns: "y = (n, \<sigma>')" by (cases y)
  from two_batches y ns have n: "n = 1"
    and c: "chat_data \<sigma>' = [hello_row\<lparr>processed := True\<rparr>, bad_row]" by simp_all
  from y ns n have run: "run_instant_mode id ?\<sigma> = Some (1, \<sigma>')" by simp
  from work_queue_frame[where \<sigma> = ?\<sigma> and H = id and t = "[]" and m = 25 and b = 10 and mb = 10]
    run
  obtain \<tau>s where t: "instant_mode_batches id ?\<sigma> = Some \<tau>s"
    and fe: "flagged_exactly (set (run_flagged id \<tau>s)) (chat_data ?\<sigma>) (chat_data \<sigma>')"
    and len: "1 = int (length (run_flagged id \<tau>s))" by blast
  from fe c have "hello_row\<lparr>processed := True\<rparr>
      = (if rowid hello_row \<in> set (run_flagged id \<tau>s)
         then hello_row\<lparr>processed := True\<rparr> else hello_row)"
    by (auto simp: flagged_exactly_def new_engine_def)
  then have "rowid hello_row \<in> set (run_flagged id \<tau>s)"
    by (auto simp: hello_row_def split: if_splits)
  then have in3: "3 \<in> set (run_flagged id \<tau>s)" by (simp add: hello_row_def)
  from len obtain x where x: "run_flagged id \<tau>s = [x]"
    by (cases "run_flagged id \<tau>s") auto
  with in3 have "run_flagged id \<tau>s = [3]" by simp
  with run c t show ?thesis by blast
qed

text \<open>
  The claim as stated (the flag is set for confirmed successes only) fails on a queue that
  holds one blank item: the instant mode reports one item vectorized and flags the row,
  with no inference call made and no embedding generated.
\<close>

theorem blank_item_flagged_without_inference:
  "map_option fst (run_instant_mode id (new_engine CONFIG_DEFAULTS Mvm good_world 0 [blank_row]))
     = Some 1
   \<and> map_option (chat_data \<circ> snd)
        (run_instant_mode id (new_engine CONFIG_DEFAULTS Mvm good_world 0 [blank_row]))
     = Some [blank_row\<lparr>processed := True\<rparr>]
   \<and> map_option (posts \<circ> snd)
        (run_instant_mode id (new_engine CONFIG_DEFAULTS Mvm good_world 0 [blank_row]))
     = Some 0
   \<and> map_option ((\<lambda>st. st ''embeddings_generated'') \<circ> stats \<circ> snd)
        (run_instant_mode id (new_engine CONFIG_DEFAULTS Mvm good_world 0 [blank_row]))
     = Some 0"
  by (simp add: run_instant_mode_def drain_dlq_def list_retryable_def limit_rows_def
      get_queue_size_def instant_loop.simps
      vectorize_batch_def fetch_unprocessed_def run_defs acquire_ready
      blank_row_def write_sinks_def write_to_mvm_def mvm_row_def
      vectors_insert_def mark_batch_def mark_processed_def item_of_def)

end
